theory Spec2Isabelle
  imports Complex_Main
begin

section \<open>Floating-point values\<close>

text \<open>
  The coefficients are \<open>float\<close>s and \<open>double\<close>s. A finite value is read as a real number
  (no rounding, no overflow, one zero); the infinities and the not-a-number are kept,
  since the code divides without looking at the divisor. Division by zero follows
  IEEE 754: a nonzero dividend gives an infinity of the dividend's sign, zero by zero
  gives a NaN.
\<close>

datatype fnum = Fin real | PInf | NInf | NaN

fun fneg :: "fnum \<Rightarrow> fnum" where
  "fneg (Fin a) = Fin (- a)"
| "fneg PInf = NInf"
| "fneg NInf = PInf"
| "fneg NaN = NaN"

fun fadd :: "fnum \<Rightarrow> fnum \<Rightarrow> fnum" where
  "fadd (Fin a) (Fin b) = Fin (a + b)"
| "fadd (Fin a) PInf = PInf"
| "fadd (Fin a) NInf = NInf"
| "fadd PInf (Fin b) = PInf"
| "fadd NInf (Fin b) = NInf"
| "fadd PInf PInf = PInf"
| "fadd NInf NInf = NInf"
| "fadd PInf NInf = NaN"
| "fadd NInf PInf = NaN"
| "fadd NaN y = NaN"
| "fadd x NaN = NaN"

definition fsub :: "fnum \<Rightarrow> fnum \<Rightarrow> fnum" where
  "fsub x y = fadd x (fneg y)"

fun fmul :: "fnum \<Rightarrow> fnum \<Rightarrow> fnum" where
  "fmul (Fin a) (Fin b) = Fin (a * b)"
| "fmul (Fin a) PInf = (if a = 0 then NaN else if 0 < a then PInf else NInf)"
| "fmul (Fin a) NInf = (if a = 0 then NaN else if 0 < a then NInf else PInf)"
| "fmul PInf (Fin b) = (if b = 0 then NaN else if 0 < b then PInf else NInf)"
| "fmul NInf (Fin b) = (if b = 0 then NaN else if 0 < b then NInf else PInf)"
| "fmul PInf PInf = PInf"
| "fmul NInf NInf = PInf"
| "fmul PInf NInf = NInf"
| "fmul NInf PInf = NInf"
| "fmul NaN y = NaN"
| "fmul x NaN = NaN"

fun fdiv :: "fnum \<Rightarrow> fnum \<Rightarrow> fnum" where
  "fdiv (Fin a) (Fin b) =
     (if b \<noteq> 0 then Fin (a / b)
      else if a = 0 then NaN else if 0 < a then PInf else NInf)"
| "fdiv (Fin a) PInf = Fin 0"
| "fdiv (Fin a) NInf = Fin 0"
| "fdiv PInf (Fin b) = (if 0 \<le> b then PInf else NInf)"
| "fdiv NInf (Fin b) = (if 0 \<le> b then NInf else PInf)"
| "fdiv PInf PInf = NaN"
| "fdiv NInf NInf = NaN"
| "fdiv PInf NInf = NaN"
| "fdiv NInf PInf = NaN"
| "fdiv NaN y = NaN"
| "fdiv x NaN = NaN"

fun is_finite :: "fnum \<Rightarrow> bool" where
  "is_finite (Fin a) = True"
| "is_finite PInf = False"
| "is_finite NInf = False"
| "is_finite NaN = False"

text \<open>The failures the spec's error taxonomy names.\<close>

datatype error = ConfigurationError | DegenerateInputError | CollaboratorError

section \<open>Sparse matrices in row-compressed storage (the builtin backend's \<open>crs\<close>)\<close>

text \<open>
  Modelled from the spec: the declaration of the matrix type (amgcl/backend/builtin.hpp)
  is not among the sources. Its members are the five the coarsening code writes, which
  are those of the spec's data model: \<open>nrows\<close>, \<open>ncols\<close> and the three arrays \<open>ptr\<close>,
  \<open>col\<close>, \<open>val\<close>. Row pointers are sizes (\<open>nat\<close>); column indices are signed, as the
  aggregate ids they are copied from.
\<close>

record 'v crs =
  nrows :: nat
  ncols :: nat
  ptr :: "nat list"
  col :: "int list"
  val :: "'v list"

definition rows :: "'v crs \<Rightarrow> nat" where
  "rows M = nrows M"

text \<open>
  The nonzeros stored for row \<open>i\<close>: positions \<open>ptr[i] .. ptr[i+1] - 1\<close> of \<open>col\<close> and
  \<open>val\<close>, read pairwise, as every loop over a row does.
\<close>

definition row_entries :: "'v crs \<Rightarrow> nat \<Rightarrow> (int \<times> 'v) list" where
  "row_entries M i =
     (let b = ptr M ! i; e = ptr M ! (i + 1)
      in zip (take (e - b) (drop b (col M))) (take (e - b) (drop b (val M))))"

text \<open>
  The coefficient of the matrix at row \<open>i\<close>, column \<open>j\<close>: the sum of the stored nonzeros
  of row \<open>i\<close> whose column index is \<open>j\<close> (zero when there is none).
\<close>

definition entry :: "real crs \<Rightarrow> nat \<Rightarrow> nat \<Rightarrow> real" where
  "entry M i j = sum_list (map snd (filter (\<lambda>e. fst e = int j) (row_entries M i)))"

text \<open>Assembling a row-compressed matrix from the list of its rows.\<close>

fun offsets :: "nat \<Rightarrow> 'a list list \<Rightarrow> nat list" where
  "offsets k [] = [k]"
| "offsets k (r # rs) = k # offsets (k + length r) rs"

definition from_rows :: "nat \<Rightarrow> nat \<Rightarrow> (int \<times> 'v) list list \<Rightarrow> 'v crs" where
  "from_rows nr nc rs =
     \<lparr>nrows = nr, ncols = nc, ptr = offsets 0 rs,
      col = concat (map (map fst) rs), val = concat (map (map snd) rs)\<rparr>"

text \<open>
  Modelled from the spec: \<open>transpose\<close> (amgcl/backend/builtin.hpp) is not among the
  sources. The spec lists the sparse matrix transpose among the backend operations and
  describes its use here: every restriction row collects the contributions of its member
  fine rows. Row \<open>j\<close> of the transpose holds, for the rows \<open>i\<close> of the argument in
  increasing order, the nonzeros of row \<open>i\<close> that sit in column \<open>j\<close>, now with column
  index \<open>i\<close>.
\<close>

definition transpose_m :: "'v crs \<Rightarrow> 'v crs" where
  "transpose_m M =
     from_rows (ncols M) (nrows M)
       (map (\<lambda>j. concat (map (\<lambda>i. map (\<lambda>e. (int i, snd e))
                                   (filter (\<lambda>e. fst e = int j) (row_entries M i)))
                              [0..<nrows M]))
            [0..<ncols M])"

section \<open>Non-smoothed aggregation (amgcl/coarsening/aggregation.hpp)\<close>

text \<open>
  What the code reads of the \<open>Aggregates\<close> object: the number of aggregates and the
  aggregate id of every row (negative for a row left out of every aggregate). The field
  \<open>id\<close> is written \<open>id'\<close>.
\<close>

record aggregates =
  count :: nat
  id' :: "int list"

text \<open>
  The coarsening parameters: the aggregation parameters, whose type belongs to the
  \<open>Aggregates\<close> template argument, and the over-interpolation factor, a \<open>float\<close>
  (read as a real number).
\<close>

record 'p params =
  aggr :: 'p
  over_interp :: real

text \<open>
  The loop of \<open>transfer_operators\<close> over the rows \<open>i = 0 .. n - 1\<close>; the state is the pair
  of the arrays \<open>P->ptr\<close> and \<open>P->col\<close>, each grown by \<open>push_back\<close>.
\<close>

function P_loop :: "int list \<Rightarrow> nat \<Rightarrow> nat \<Rightarrow> nat list \<times> int list \<Rightarrow> nat list \<times> int list" where
  "P_loop ids n i (P_ptr, P_col) =
     (if i < n then
        (let P_col = (if 0 \<le> ids ! i then P_col @ [ids ! i] else P_col);
             P_ptr = P_ptr @ [length P_col]
         in P_loop ids n (i + 1) (P_ptr, P_col))
      else (P_ptr, P_col))"
  by pat_completeness auto
termination
  by (relation "measure (\<lambda>(ids, n, i, st). n - i)") auto

declare P_loop.simps [simp del]

text \<open>
  \<open>transfer_operators\<close>. The template argument \<open>Aggregates\<close> is a parameter: the function
  that builds the aggregates of a matrix. \<open>P->val.resize(n, 1)\<close> makes \<open>val\<close> a list of
  \<open>n\<close> ones.
\<close>

definition transfer_operators ::
  "(real crs \<Rightarrow> 'p \<Rightarrow> aggregates) \<Rightarrow> real crs \<Rightarrow> 'p params \<Rightarrow> real crs \<times> real crs" where
  "transfer_operators Aggregates A prm =
     (let n = rows A;
          ag = Aggregates A (aggr prm);
          (P_ptr, P_col) = P_loop (id' ag) n 0 ([0], []);
          P = \<lparr>nrows = n, ncols = count ag, ptr = P_ptr, col = P_col, val = replicate n 1\<rparr>;
          R = transpose_m P
      in (P, R))"

text \<open>The ids that name an aggregate (the non-negative ones), in row order.\<close>

abbreviation nn :: "int list \<Rightarrow> int list" where
  "nn xs \<equiv> filter (\<lambda>c. 0 \<le> c) xs"

section \<open>The coarse operator (amgcl/coarsening/aggregation.hpp)\<close>

text \<open>
  Modelled from the spec: the sparse matrix-matrix product of the builtin backend
  (amgcl/backend/builtin.hpp) is not among the sources. The spec asks for a product with
  correct symbolic fill and rows without duplicate column indices: row \<open>i\<close> of \<open>A * B\<close>
  collects, for every nonzero \<open>(k, a)\<close> of row \<open>i\<close> of \<open>A\<close> and every nonzero \<open>(j, b)\<close> of
  row \<open>k\<close> of \<open>B\<close>, the contribution \<open>a * b\<close> to column \<open>j\<close>; contributions to one column
  are added up, columns in order of first appearance.
\<close>

definition merge_row :: "(int \<times> real) list \<Rightarrow> (int \<times> real) list" where
  "merge_row xs =
     map (\<lambda>c. (c, sum_list (map snd (filter (\<lambda>e. fst e = c) xs)))) (remdups (map fst xs))"

definition product_row :: "real crs \<Rightarrow> real crs \<Rightarrow> nat \<Rightarrow> (int \<times> real) list" where
  "product_row A B i =
     merge_row (concat (map (\<lambda>e. map (\<lambda>f. (fst f, snd e * snd f))
                                      (row_entries B (nat (fst e))))
                            (row_entries A i)))"

definition product_m :: "real crs \<Rightarrow> real crs \<Rightarrow> real crs" where
  "product_m A B = from_rows (nrows A) (ncols B) (map (product_row A B) [0..<nrows A])"

text \<open>
  Multiplying every stored coefficient by the scale factor. The factor is a \<open>float\<close>
  computed by a division, so it may be an infinity.
\<close>

definition scale_m :: "fnum \<Rightarrow> real crs \<Rightarrow> fnum crs" where
  "scale_m s M =
     \<lparr>nrows = nrows M, ncols = ncols M, ptr = ptr M, col = col M,
      val = map (\<lambda>v. fmul s (Fin v)) (val M)\<rparr>"

text \<open>
  Modelled from the spec: \<open>detail::scaled_galerkin\<close>
  (amgcl/coarsening/detail/scaled_galerkin.hpp) is not among the sources. The spec: the
  triple product \<open>R * A * P\<close> is computed by sparse matrix-matrix multiplication, then
  every entry is scaled.
\<close>

definition scaled_galerkin :: "real crs \<Rightarrow> real crs \<Rightarrow> real crs \<Rightarrow> fnum \<Rightarrow> fnum crs" where
  "scaled_galerkin A P R s = scale_m s (product_m R (product_m A P))"

text \<open>
  \<open>coarse_operator\<close>: the one statement
  \<open>return detail::scaled_galerkin(A, P, R, 1 / prm.over_interp)\<close>. Nothing is thrown
  here, so the result is always on the right of the sum.
\<close>

definition coarse_operator ::
  "real crs \<Rightarrow> real crs \<Rightarrow> real crs \<Rightarrow> 'p params \<Rightarrow> error + fnum crs" where
  "coarse_operator A P R prm =
     Inr (scaled_galerkin A P R (fdiv (Fin 1) (Fin (over_interp prm))))"

text \<open>
  The column indices of every row lie in \<open>[0, ncols)\<close>, as the data model demands.
\<close>

definition cols_in_range :: "'v crs \<Rightarrow> bool" where
  "cols_in_range M =
     list_all (\<lambda>i. list_all (\<lambda>e. 0 \<le> fst e \<and> fst e < int (ncols M)) (row_entries M i))
       [0..<nrows M]"

section \<open>Levels of the hierarchy (amgcl/level_viennacl.hpp)\<close>

subsection \<open>Vectors and the ViennaCL operations\<close>

text \<open>
  Modelled from the spec: the ViennaCL library is not among the sources; the spec lists
  its operations as the linear-algebra backend (matrix-vector product, vector add, scale
  and element-wise divide, inner product). A \<open>viennacl::vector\<close> is a list of values and
  the operations are read componentwise: binary operations pair the components of their operands,
  \<open>clear\<close> sets every component to zero and keeps the size, \<open>prod\<close> is the sparse
  matrix-vector product (row by row, each row summed from left to right), and
  \<open>inner_prod\<close> sums the componentwise products. \<open>x ! nat c\<close> for a column index \<open>c\<close>
  outside the vector is left unspecified, as the read is in C++.
\<close>

type_synonym vector = "fnum list"

definition clear :: "vector \<Rightarrow> vector" where
  "clear v = replicate (length v) (Fin 0)"

definition vadd :: "vector \<Rightarrow> vector \<Rightarrow> vector" where
  "vadd a b = map2 fadd a b"

definition vsub :: "vector \<Rightarrow> vector \<Rightarrow> vector" where
  "vsub a b = map2 fsub a b"

definition scal :: "fnum \<Rightarrow> vector \<Rightarrow> vector" where
  "scal c v = map (fmul c) v"

definition element_div :: "vector \<Rightarrow> vector \<Rightarrow> vector" where
  "element_div a b = map2 fdiv a b"

definition inner_prod :: "vector \<Rightarrow> vector \<Rightarrow> fnum" where
  "inner_prod a b = foldl fadd (Fin 0) (map2 fmul a b)"

definition dot_row :: "(int \<times> fnum) list \<Rightarrow> vector \<Rightarrow> fnum" where
  "dot_row r x = foldl (\<lambda>acc e. fadd acc (fmul (snd e) (x ! nat (fst e)))) (Fin 0) r"

definition prod_mv :: "fnum crs \<Rightarrow> vector \<Rightarrow> vector" where
  "prod_mv M x = map (\<lambda>i. dot_row (row_entries M i) x) [0..<nrows M]"

subsection \<open>Counted loops\<close>

text \<open>
  The loop \<open>for (unsigned i = lo; i < n; ++i) s = body(i, s)\<close>.
\<close>

function for_loop :: "nat \<Rightarrow> nat \<Rightarrow> (nat \<Rightarrow> 's \<Rightarrow> 's) \<Rightarrow> 's \<Rightarrow> 's" where
  "for_loop i n body s = (if i < n then for_loop (i + 1) n body (body i s) else s)"
  by pat_completeness auto
termination
  by (relation "measure (\<lambda>(i, n, body, s). n - i)") auto

declare for_loop.simps [simp del]

lemma for_loop_cong [fundef_cong]:
  assumes "i = i'" and "n = n'" and "s = s'"
    and "\<And>j t. i' \<le> j \<Longrightarrow> j < n' \<Longrightarrow> body j t = body' j t"
  shows "for_loop i n body s = for_loop i' n' body' s'"
  using assms
proof (induction i n body s arbitrary: i' s' rule: for_loop.induct)
  case (1 i n body s)
  show ?case
  proof (cases "i < n")
    case True
    have "for_loop (i + 1) n body (body i s) = for_loop (i' + 1) n' body' (body' i' s')"
      using 1 True by (intro "1.IH") auto
    then show ?thesis
      using True 1 by (subst for_loop.simps, subst (2) for_loop.simps) simp
  next
    case False
    then show ?thesis
      using 1 by (subst for_loop.simps, subst (2) for_loop.simps) simp
  qed
qed

subsection \<open>The level\<close>

text \<open>
  Modelled from the spec: \<open>amgcl::level::params\<close> (amgcl/level_params.hpp) is not among
  the sources. The spec lists the cycle parameters \<open>npre\<close>, \<open>npost\<close>, \<open>ncycle\<close> and
  \<open>kcycle\<close>; they are the four unsigned members the level code reads.
\<close>

record level_params =
  npre :: nat
  npost :: nat
  ncycle :: nat
  kcycle_every :: nat

text \<open>
  The members of \<open>instance\<close>: the matrices \<open>A\<close>, \<open>P\<close>, \<open>R\<close>, \<open>Ainv\<close>, the diagonal \<open>d\<close>, the
  work vectors \<open>u\<close>, \<open>f\<close>, \<open>t\<close> and the array \<open>cg\<close> of four vectors (\<open>cg0\<close> to \<open>cg3\<close>
  read \<open>cg[0]\<close> to \<open>cg[3]\<close>). Host and device matrices are both the row-compressed
  record; \<open>a.rows\<close> is \<open>nrows a\<close>. The field \<open>kcycle_every\<close> above is the parameter
  \<open>kcycle\<close>, renamed so that the function \<open>kcycle\<close> keeps its name.
\<close>

record level =
  lvl_A :: "fnum crs"
  lvl_P :: "fnum crs"
  lvl_R :: "fnum crs"
  lvl_Ainv :: "fnum crs"
  lvl_d :: vector
  lvl_u :: vector
  lvl_f :: vector
  lvl_t :: vector
  lvl_cg :: "vector \<times> vector \<times> vector \<times> vector"

definition cg0 :: "level \<Rightarrow> vector" where
  "cg0 lvl = (case lvl_cg lvl of (r, s, p, q) \<Rightarrow> r)"

definition cg1 :: "level \<Rightarrow> vector" where
  "cg1 lvl = (case lvl_cg lvl of (r, s, p, q) \<Rightarrow> s)"

definition cg2 :: "level \<Rightarrow> vector" where
  "cg2 lvl = (case lvl_cg lvl of (r, s, p, q) \<Rightarrow> p)"

definition cg3 :: "level \<Rightarrow> vector" where
  "cg3 lvl = (case lvl_cg lvl of (r, s, p, q) \<Rightarrow> q)"

text \<open>
  Modelled from the spec: \<open>diagonal\<close> (amgcl/spmat.hpp) is not among the sources. The
  spec has every level cache the diagonal of its matrix: component \<open>i\<close> is the stored
  coefficient of row \<open>i\<close> at column \<open>i\<close>, zero when the row stores none.
\<close>

definition diagonal :: "fnum crs \<Rightarrow> vector" where
  "diagonal a =
     map (\<lambda>i. case filter (\<lambda>e. fst e = int i) (row_entries a i) of
                 [] \<Rightarrow> Fin 0
               | e # es \<Rightarrow> snd e)
         [0..<nrows a]"

definition zeros :: "nat \<Rightarrow> vector" where
  "zeros n = replicate n (Fin 0)"

definition empty_matrix :: "fnum crs" where
  "empty_matrix = \<lparr>nrows = 0, ncols = 0, ptr = [0], col = [], val = []\<rparr>"

text \<open>
  The constructor of a complete level from \<open>a\<close>, \<open>p\<close>, \<open>r\<close>: \<open>d\<close> receives the diagonal of
  \<open>a\<close>; \<open>u\<close> and \<open>f\<close> are sized only below the finest level; the four \<open>cg\<close> vectors are
  sized only at the levels where the K-cycle is configured.
\<close>

definition instance_level ::
  "fnum crs \<Rightarrow> fnum crs \<Rightarrow> fnum crs \<Rightarrow> level_params \<Rightarrow> nat \<Rightarrow> level" where
  "instance_level a p r prm nlevel =
     \<lparr>lvl_A = a, lvl_P = p, lvl_R = r, lvl_Ainv = empty_matrix,
      lvl_d = diagonal a,
      lvl_u = (if nlevel \<noteq> 0 then zeros (nrows a) else []),
      lvl_f = (if nlevel \<noteq> 0 then zeros (nrows a) else []),
      lvl_t = zeros (nrows a),
      lvl_cg =
        (if nlevel \<noteq> 0 \<and> kcycle_every prm \<noteq> 0 \<and> nlevel mod kcycle_every prm = 0
         then (zeros (nrows a), zeros (nrows a), zeros (nrows a), zeros (nrows a))
         else ([], [], [], []))\<rparr>"

text \<open>The constructor of the coarsest level from \<open>a\<close> and its inverse \<open>ai\<close>.\<close>

definition instance_coarsest ::
  "fnum crs \<Rightarrow> fnum crs \<Rightarrow> level_params \<Rightarrow> nat \<Rightarrow> level" where
  "instance_coarsest a ai prm nlevel =
     \<lparr>lvl_A = a, lvl_P = empty_matrix, lvl_R = empty_matrix, lvl_Ainv = ai,
      lvl_d = diagonal a,
      lvl_u = zeros (nrows a), lvl_f = zeros (nrows a), lvl_t = zeros (nrows a),
      lvl_cg = ([], [], [], [])\<rparr>"

subsection \<open>Relaxation\<close>

text \<open>
  \<open>relax\<close>: the four statements on the work vector \<open>t\<close>, then \<open>x += 0.72 * t\<close>. The new
  \<open>x\<close> is returned.
\<close>

definition relax :: "level \<Rightarrow> vector \<Rightarrow> vector \<Rightarrow> vector" where
  "relax lvl rhs x =
     (let t = prod_mv (lvl_A lvl) x;
          t = vsub rhs t;
          t = element_div t (lvl_d lvl)
      in vadd x (scal (Fin (72 / 100)) t))"

subsection \<open>The cycles\<close>

text \<open>
  \<open>cycle\<close> and \<open>kcycle\<close> take the iterator range as the current level \<open>lvl\<close> and the list of
  the levels after it up to \<open>end\<close>; \<open>nxt = end\<close> is the empty list. The work vectors a
  call writes (\<open>t\<close> of the level, \<open>f\<close> and \<open>u\<close> of the next level, \<open>cg\<close> of the level) are
  each assigned before they are read, and an assignment keeps the size the constructor
  gave the target; they are local values here, and the new \<open>x\<close> is returned. In \<open>kcycle\<close>
  the loop state is \<open>(x, r, p, rho1, rho2)\<close>; \<open>s\<close>, \<open>q\<close> and \<open>alpha\<close> are assigned afresh in
  every iteration.
\<close>

function cycle :: "level \<Rightarrow> level list \<Rightarrow> level_params \<Rightarrow> vector \<Rightarrow> vector \<Rightarrow> vector"
  and kcycle :: "level \<Rightarrow> level list \<Rightarrow> level_params \<Rightarrow> vector \<Rightarrow> vector \<Rightarrow> vector"
where
  "cycle lvl [] prm rhs x = prod_mv (lvl_Ainv lvl) rhs"
| "cycle lvl (nxt # rest) prm rhs x =
     for_loop 0 (ncycle prm)
       (\<lambda>j x.
          let x = for_loop 0 (npre prm) (\<lambda>i x. relax lvl rhs x) x;
              t = prod_mv (lvl_A lvl) x;
              t = vsub rhs t;
              f = prod_mv (lvl_R lvl) t;
              u = clear (lvl_u nxt);
              u = (if length (cg0 nxt) \<noteq> 0 then kcycle nxt rest prm f u
                   else cycle nxt rest prm f u);
              t = prod_mv (lvl_P lvl) u;
              x = vadd x t
          in for_loop 0 (npost prm) (\<lambda>i x. relax lvl rhs x) x)
       x"
| "kcycle lvl [] prm rhs x = prod_mv (lvl_Ainv lvl) rhs"
| "kcycle lvl (nxt # rest) prm rhs x =
     fst (for_loop 0 2
       (\<lambda>iter (x, r, p, rho1, rho2).
          let s = clear (cg1 lvl);
              s = cycle lvl (nxt # rest) prm r s;
              rho2 = rho1;
              rho1 = inner_prod r s;
              p = (if iter \<noteq> 0 then vadd s (scal (fdiv rho1 rho2) p) else s);
              q = prod_mv (lvl_A lvl) p;
              alpha = fdiv rho1 (inner_prod q p);
              x = vadd x (scal alpha p);
              r = vsub r (scal alpha q)
          in (x, r, p, rho1, rho2))
       (x, rhs, cg2 lvl, Fin 0, Fin 0))"
  by pat_completeness auto
termination
  by (relation "measure (\<lambda>v. case v of
        Inl (lvl, rest, prm, rhs, x) \<Rightarrow> 2 * length rest
      | Inr (lvl, rest, prm, rhs, x) \<Rightarrow> 2 * length rest + 1)") auto

subsection \<open>The cycles as the specification describes them\<close>

text \<open>
  The recursive solve on the next level: the K-cycle where it is configured (the level's
  \<open>cg\<close> vectors are sized), the V-cycle elsewhere.
\<close>

definition coarse_solve ::
  "level \<Rightarrow> level list \<Rightarrow> level_params \<Rightarrow> vector \<Rightarrow> vector \<Rightarrow> vector" where
  "coarse_solve nxt rest prm f u =
     (if length (cg0 nxt) \<noteq> 0 then kcycle nxt rest prm f u else cycle nxt rest prm f u)"

text \<open>
  One pass of the V-cycle at a level that has a next level, in the order the spec gives:
  pre-relax \<open>npre\<close> times, compute the residual, restrict it with \<open>R\<close>, solve on the next
  level from the zero initial guess, prolongate the correction with \<open>P\<close> and add it,
  post-relax \<open>npost\<close> times.
\<close>

definition vcycle_pass ::
  "level \<Rightarrow> level \<Rightarrow> level list \<Rightarrow> level_params \<Rightarrow> vector \<Rightarrow> vector \<Rightarrow> vector" where
  "vcycle_pass lvl nxt rest prm rhs x =
     (let x_pre = (relax lvl rhs ^^ npre prm) x;
          residual = vsub rhs (prod_mv (lvl_A lvl) x_pre);
          restricted = prod_mv (lvl_R lvl) residual;
          correction = coarse_solve nxt rest prm restricted (zeros (length (lvl_u nxt)));
          x_corrected = vadd x_pre (prod_mv (lvl_P lvl) correction)
      in (relax lvl rhs ^^ npost prm) x_corrected)"

text \<open>
  The two iterations of the K-cycle, written out one after the other as the spec
  describes them; the result is the pair of \<open>x\<close> and \<open>r\<close> after the second iteration.
\<close>

definition kcycle_two_iterations ::
  "level \<Rightarrow> level list \<Rightarrow> level_params \<Rightarrow> vector \<Rightarrow> vector \<Rightarrow> vector \<times> vector" where
  "kcycle_two_iterations lvl rest prm rhs x =
     (let r0 = rhs;
          s1 = cycle lvl rest prm r0 (zeros (length (cg1 lvl)));
          rho_first = inner_prod r0 s1;
          p1 = s1;
          q1 = prod_mv (lvl_A lvl) p1;
          alpha1 = fdiv rho_first (inner_prod q1 p1);
          x1 = vadd x (scal alpha1 p1);
          r1 = vsub r0 (scal alpha1 q1);
          s2 = cycle lvl rest prm r1 (zeros (length (cg1 lvl)));
          rho_second = inner_prod r1 s2;
          p2 = vadd s2 (scal (fdiv rho_second rho_first) p1);
          q2 = prod_mv (lvl_A lvl) p2;
          alpha2 = fdiv rho_second (inner_prod q2 p2);
          x2 = vadd x1 (scal alpha2 p2);
          r2 = vsub r1 (scal alpha2 q2)
      in (x2, r2))"

section \<open>The direct solver wrapper (amgcl/solver/eigen.hpp)\<close>

text \<open>
  The template argument \<open>Solver\<close> is a factorization class of the Eigen library. The
  wrapper calls its \<open>compute\<close> and \<open>solve\<close>. An Eigen factorization does not throw when
  it fails: it records the outcome, which \<open>info()\<close> returns. The solver is a parameter
  of the model, a record of these three functions over the solver's state.
\<close>

datatype ComputationInfo = Success | NumericalIssue | NoConvergence | InvalidInput

record 's Solver =
  compute :: "fnum crs \<Rightarrow> 's"
  solve :: "'s \<Rightarrow> vector \<Rightarrow> vector"
  info :: "'s \<Rightarrow> ComputationInfo"

text \<open>The members \<open>n\<close> and \<open>S\<close> of \<open>EigenSolver\<close>.\<close>

record 's EigenSolver =
  es_n :: nat
  es_S :: 's

text \<open>
  The constructor: \<open>n\<close> is set to the number of rows and \<open>S.compute\<close> is called on the
  matrix. The body has no other statement, so the result is always on the right of the
  sum.
\<close>

definition EigenSolver_new :: "'s Solver \<Rightarrow> fnum crs \<Rightarrow> error + 's EigenSolver" where
  "EigenSolver_new slv A = Inr \<lparr>es_n = rows A, es_S = compute slv A\<rparr>"

text \<open>
  \<open>operator()\<close>: the first \<open>n\<close> components of \<open>x\<close> receive \<open>S.solve\<close> of the first \<open>n\<close>
  components of \<open>rhs\<close>.
\<close>

definition EigenSolver_apply ::
  "'s Solver \<Rightarrow> 's EigenSolver \<Rightarrow> vector \<Rightarrow> vector \<Rightarrow> vector" where
  "EigenSolver_apply slv es rhs x =
     take (es_n es) (solve slv (es_S es) (take (es_n es) rhs)) @ drop (es_n es) x"

text \<open>
  A solver in Eigen's style, used as a concrete template argument: the factorization of
  a \<open>1 \<times> 1\<close> matrix. Its state is the status and the reciprocal of the coefficient; a zero
  or missing coefficient is recorded as \<open>NumericalIssue\<close>.
\<close>

definition scalar_solver :: "(ComputationInfo \<times> fnum) Solver" where
  "scalar_solver =
     \<lparr>compute = (\<lambda>A. case val A of
                         [] \<Rightarrow> (NumericalIssue, Fin 0)
                       | v # vs \<Rightarrow> if v = Fin 0 then (NumericalIssue, Fin 0)
                                  else (Success, fdiv (Fin 1) v)),
      solve = (\<lambda>st rhs. map (fmul (snd st)) rhs),
      info = fst\<rparr>"

section \<open>Distributed repartitioning decision (amgcl/mpi/repartition/scotch.hpp)\<close>

text \<open>
  The parameters of the SCOTCH repartitioner. \<open>min_per_proc\<close> is a \<open>ptrdiff_t\<close>,
  \<open>shrink_ratio\<close> an \<open>int\<close>; both are read as mathematical integers.
\<close>

record scotch_params =
  enable :: bool
  min_per_proc :: int
  shrink_ratio :: int

definition scotch_params_default :: scotch_params where
  "scotch_params_default = \<lparr>enable = False, min_per_proc = 10000, shrink_ratio = 8\<rparr>"

definition PTRDIFF_MAX :: int where
  "PTRDIFF_MAX = 2 ^ 63 - 1"

text \<open>
  Modelled from the spec: \<open>mpi::exclusive_sum\<close> (amgcl/mpi/util.hpp) is not among the
  sources. The spec describes the row offsets as the exclusive prefix sum of the local
  row counts across ranks; the caller reads entries \<open>0 .. comm.size\<close> of it, so the result
  has one entry more than there are ranks. The argument lists the local row count of
  every rank of the communicator, in rank order.
\<close>

fun exclusive_sum_from :: "int \<Rightarrow> int list \<Rightarrow> int list" where
  "exclusive_sum_from acc [] = [acc]"
| "exclusive_sum_from acc (n # ns) = acc # exclusive_sum_from (acc + n) ns"

definition exclusive_sum :: "int list \<Rightarrow> int list" where
  "exclusive_sum loc_rows = exclusive_sum_from 0 loc_rows"

text \<open>
  The loop of \<open>is_needed\<close> over the ranks \<open>i = 0 .. comm.size - 1\<close>, with the two
  accumulators \<open>non_empty\<close> and \<open>min_n\<close>.
\<close>

function is_needed_loop :: "int list \<Rightarrow> nat \<Rightarrow> nat \<Rightarrow> int \<times> int \<Rightarrow> int \<times> int" where
  "is_needed_loop row_dom comm_size i (non_empty, min_n) =
     (if i < comm_size then
        (let m = row_dom ! (i + 1) - row_dom ! i in
         if m \<noteq> 0 then is_needed_loop row_dom comm_size (i + 1) (non_empty + 1, min min_n m)
         else is_needed_loop row_dom comm_size (i + 1) (non_empty, min_n))
      else (non_empty, min_n))"
  by pat_completeness auto
termination
  by (relation "measure (\<lambda>(row_dom, comm_size, i, acc). comm_size - i)") auto

declare is_needed_loop.simps [simp del]

text \<open>
  \<open>is_needed\<close>: every rank computes the same answer from the collective prefix sum, so
  the model takes the local row counts of all ranks (their number is \<open>comm.size\<close>).
\<close>

definition is_needed :: "scotch_params \<Rightarrow> int list \<Rightarrow> bool" where
  "is_needed prm loc_rows =
     (if \<not> enable prm then False
      else
        (let row_dom = exclusive_sum loc_rows;
             (non_empty, min_n) =
               is_needed_loop row_dom (length loc_rows) 0 (0, PTRDIFF_MAX)
         in 1 < non_empty \<and> min_n \<le> min_per_proc prm))"

section \<open>Properties of the transfer operators\<close>

lemma P_loop_eq:
  "i \<le> n \<Longrightarrow> n \<le> length ids \<Longrightarrow>
   P_loop ids n i (p, c) =
     (p @ map (\<lambda>k. length c + length (nn (take (k - i) (drop i ids)))) [i + 1..<n + 1],
      c @ nn (take (n - i) (drop i ids)))"
proof (induction ids n i "(p, c)" arbitrary: p c rule: P_loop.induct)
  case (1 ids n i p c)
  show ?case
  proof (cases "i < n")
    case False
    with 1 show ?thesis by (subst P_loop.simps) simp
  next
    case True
    define c' where "c' = (if 0 \<le> ids ! i then c @ [ids ! i] else c)"
    have d: "drop i ids = ids ! i # drop (Suc i) ids"
      using True "1.prems" by (simp add: Cons_nth_drop_Suc)
    have step: "P_loop ids n i (p, c) = P_loop ids n (i + 1) (p @ [length c'], c')"
      using True by (subst P_loop.simps) (simp add: Let_def c'_def)
    have ih: "P_loop ids n (i + 1) (p @ [length c'], c') =
      ((p @ [length c']) @ map (\<lambda>k. length c' + length (nn (take (k - (i + 1)) (drop (i + 1) ids)))) [i + 1 + 1..<n + 1],
       c' @ nn (take (n - (i + 1)) (drop (i + 1) ids)))"
      using "1.hyps"[OF True c'_def refl] True "1.prems" by simp
    have lc: "length c' = length c + length (nn [ids ! i])"
      by (simp add: c'_def)
    have u: "[i + 1..<n + 1] = (i + 1) # [i + 1 + 1..<n + 1]"
      using True by (simp add: upt_conv_Cons)
    have tk: "take (n - i) (drop i ids) = ids ! i # take (n - (i + 1)) (drop (i + 1) ids)"
    proof -
      from True have "n - i = Suc (n - (i + 1))" by simp
      then show ?thesis using d by simp
    qed
    have m: "map (\<lambda>k. length c + length (nn (take (k - i) (drop i ids)))) [i + 1 + 1..<n + 1]
           = map (\<lambda>k. length c' + length (nn (take (k - (i + 1)) (drop (i + 1) ids)))) [i + 1 + 1..<n + 1]"
    proof (rule map_cong[OF refl])
      fix k assume "k \<in> set [i + 1 + 1..<n + 1]"
      then have "k - i = Suc (k - (i + 1))" by auto
      then show "length c + length (nn (take (k - i) (drop i ids))) =
                 length c' + length (nn (take (k - (i + 1)) (drop (i + 1) ids)))"
        using d lc by simp
    qed
    show ?thesis
      unfolding step ih u tk using m d by (simp add: c'_def)
  qed
qed

lemma P_loop_result:
  assumes "n \<le> length ids"
  shows "P_loop ids n 0 ([0], []) =
           (map (\<lambda>k. length (nn (take k ids))) [0..<n + 1], nn (take n ids))"
proof -
  have u: "[0..<n + 1] = 0 # [0 + 1..<n + 1]"
    by (simp add: upt_conv_Cons)
  show ?thesis
    using P_loop_eq[of 0 n ids "[0]" "[]"] assms unfolding u by simp
qed

lemma drop_filter_take:
  "drop (length (filter p (take i xs))) (filter p xs) = filter p (drop i xs)"
proof -
  have "filter p xs = filter p (take i xs) @ filter p (drop i xs)"
    by (metis append_take_drop_id filter_append)
  then show ?thesis by (metis append_eq_conv_conj)
qed

lemma P_row:
  fixes m :: nat
  assumes len: "length ids = n" and i: "i < n"
  defines "M \<equiv> \<lparr>nrows = n, ncols = m, ptr = fst (P_loop ids n 0 ([0], [])),
                   col = snd (P_loop ids n 0 ([0], [])), val = replicate n (1::real)\<rparr>"
  shows "row_entries M i = (if 0 \<le> ids ! i then [(ids ! i, 1)] else [])"
proof -
  have res: "P_loop ids n 0 ([0], []) =
           (map (\<lambda>k. length (nn (take k ids))) [0..<n + 1], nn ids)"
    using P_loop_result[of n ids] len by simp
  let ?b = "length (nn (take i ids))"
  have b: "ptr M ! i = ?b"
    using i unfolding M_def res by (simp del: upt_Suc)
  have e: "ptr M ! (i + 1) = ?b + length (nn [ids ! i])"
    using i len unfolding M_def res by (simp del: upt_Suc add: take_Suc_conv_app_nth)
  have d: "drop i ids = ids ! i # drop (Suc i) ids"
    using i len by (simp add: Cons_nth_drop_Suc)
  have c: "drop ?b (col M) = nn [ids ! i] @ nn (drop (Suc i) ids)"
    unfolding M_def res using drop_filter_take[of "\<lambda>c. 0 \<le> c" i ids] d by simp
  have "?b \<le> i"
    using length_filter_le[of "\<lambda>c. 0 \<le> c" "take i ids"] i len by simp
  then have v: "take (length (nn [ids ! i])) (drop ?b (val M)) = replicate (length (nn [ids ! i])) 1"
    using i unfolding M_def by simp
  show ?thesis
    unfolding row_entries_def Let_def b e using c v by simp
qed

lemma offsets_nth:
  "i \<le> length rs \<Longrightarrow> offsets k rs ! i = k + length (concat (take i rs))"
proof (induction rs arbitrary: k i)
  case Nil then show ?case by simp
next
  case (Cons r rs)
  then show ?case by (cases i) auto
qed

lemma concat_map_split:
  "concat (map f rs) = concat (map f (take i rs)) @ concat (map f (drop i rs))"
  by (metis append_take_drop_id concat_append map_append)

lemma length_concat_map_map:
  "length (concat (map (map f) rs)) = length (concat rs)"
  by (induction rs) auto

lemma row_slice:
  assumes "i < length rs"
  shows "take (length (rs ! i)) (drop (length (concat (take i rs))) (concat (map (map f) rs)))
         = map f (rs ! i)"
proof -
  have d: "drop i rs = rs ! i # drop (Suc i) rs"
    using assms by (simp add: Cons_nth_drop_Suc)
  have "drop (length (concat (take i rs))) (concat (map (map f) rs))
        = concat (map (map f) (drop i rs))"
    using concat_map_split[of "map f" rs i] length_concat_map_map[of f "take i rs"]
    by (metis append_eq_conv_conj)
  then show ?thesis using d by simp
qed

lemma row_entries_from_rows:
  assumes "i < length rs"
  shows "row_entries (from_rows nr nc rs) i = rs ! i"
proof -
  have b: "offsets 0 rs ! i = length (concat (take i rs))"
    using assms by (simp add: offsets_nth)
  have e: "offsets 0 rs ! Suc i = length (concat (take i rs)) + length (rs ! i)"
    using assms by (simp add: offsets_nth take_Suc_conv_app_nth)
  show ?thesis
    unfolding row_entries_def Let_def from_rows_def
    using row_slice[OF assms, of fst] row_slice[OF assms, of snd]
    by (simp add: b e zip_map_fst_snd)
qed

lemma row_entries_transpose:
  assumes "j < ncols M"
  shows "row_entries (transpose_m M) j =
           concat (map (\<lambda>i. map (\<lambda>e. (int i, snd e))
                               (filter (\<lambda>e. fst e = int j) (row_entries M i)))
                       [0..<nrows M])"
  unfolding transpose_m_def using assms by (simp add: row_entries_from_rows)

lemma filter_concat_single:
  assumes "distinct xs" and "i \<in> set xs"
    and "\<And>k. k \<in> set xs \<Longrightarrow> k \<noteq> i \<Longrightarrow> filter p (g k) = []"
  shows "filter p (concat (map g xs)) = filter p (g i)"
  using assms
proof (induction xs)
  case Nil then show ?case by simp
next
  case (Cons x xs)
  show ?case
  proof (cases "x = i")
    case True
    then have "i \<notin> set xs" using Cons.prems(1) by simp
    then have "filter p (concat (map g xs)) = []"
      using Cons.prems(3) by (induction xs) auto
    then show ?thesis using True by simp
  next
    case False
    then have "filter p (g x) = []" using Cons.prems(3) by simp
    moreover have "filter p (concat (map g xs)) = filter p (g i)"
      using Cons False by auto
    ultimately show ?thesis by simp
  qed
qed

lemma entry_transpose:
  assumes i: "i < nrows M" and j: "j < ncols M"
  shows "entry (transpose_m M) j i = entry M i j"
proof -
  let ?g = "\<lambda>i. map (\<lambda>e. (int i, snd e)) (filter (\<lambda>e. fst e = int j) (row_entries M i))"
  have "filter (\<lambda>e. fst e = int i) (concat (map ?g [0..<nrows M])) = filter (\<lambda>e. fst e = int i) (?g i)"
    using i by (intro filter_concat_single) (auto simp: filter_map o_def)
  also have "\<dots> = ?g i"
    by (simp add: filter_map o_def)
  finally show ?thesis
    unfolding entry_def row_entries_transpose[OF j] by (simp add: o_def)
qed

lemma transfer_operators_P_eq:
  "fst (transfer_operators Aggregates A prm) =
     \<lparr>nrows = rows A, ncols = count (Aggregates A (aggr prm)),
      ptr = fst (P_loop (id' (Aggregates A (aggr prm))) (rows A) 0 ([0], [])),
      col = snd (P_loop (id' (Aggregates A (aggr prm))) (rows A) 0 ([0], [])),
      val = replicate (rows A) 1\<rparr>"
  by (simp add: transfer_operators_def Let_def split: prod.splits)

lemma transfer_operators_R_eq:
  "snd (transfer_operators Aggregates A prm) =
     transpose_m (fst (transfer_operators Aggregates A prm))"
  by (simp add: transfer_operators_def Let_def split: prod.splits)

lemma transfer_operators_P_row:
  assumes "length (id' (Aggregates A (aggr prm))) = rows A" and "i < rows A"
  shows "row_entries (fst (transfer_operators Aggregates A prm)) i =
           (if 0 \<le> id' (Aggregates A (aggr prm)) ! i
            then [(id' (Aggregates A (aggr prm)) ! i, 1)] else [])"
  unfolding transfer_operators_P_eq using assms by (rule P_row)

text \<open>
  The sizes of the three arrays of \<open>P\<close>: \<open>ptr\<close> ends with the number of rows that
  belong to an aggregate, which is the length of \<open>col\<close>, while \<open>val\<close> always has one
  entry per row.
\<close>

lemma transfer_operators_P_sizes:
  assumes "length (id' (Aggregates A (aggr prm))) = rows A"
  shows "ptr (fst (transfer_operators Aggregates A prm)) ! rows A =
           length (nn (id' (Aggregates A (aggr prm))))"
    and "length (col (fst (transfer_operators Aggregates A prm))) =
           length (nn (id' (Aggregates A (aggr prm))))"
    and "length (val (fst (transfer_operators Aggregates A prm))) = rows A"
proof -
  have res: "P_loop (id' (Aggregates A (aggr prm))) (rows A) 0 ([0], []) =
      (map (\<lambda>k. length (nn (take k (id' (Aggregates A (aggr prm)))))) [0..<rows A + 1],
       nn (id' (Aggregates A (aggr prm))))"
    using P_loop_result[of "rows A" "id' (Aggregates A (aggr prm))"] assms by simp
  show "ptr (fst (transfer_operators Aggregates A prm)) ! rows A =
           length (nn (id' (Aggregates A (aggr prm))))"
    unfolding transfer_operators_P_eq res using assms by (simp del: upt_Suc)
  show "length (col (fst (transfer_operators Aggregates A prm))) =
           length (nn (id' (Aggregates A (aggr prm))))"
    unfolding transfer_operators_P_eq res by simp
  show "length (val (fst (transfer_operators Aggregates A prm))) = rows A"
    unfolding transfer_operators_P_eq by simp
qed

text \<open>
  Claim C4. When the aggregate assignment covers the \<open>n\<close> rows of \<open>A\<close>, the
  prolongation \<open>P\<close> has \<open>n\<close> rows and \<open>count\<close> columns, and row \<open>i\<close> of \<open>P\<close> stores the
  single nonzero \<open>1\<close> at column \<open>id[i]\<close> when \<open>id[i] \<ge> 0\<close> and nothing when the id is
  negative (the sentinel).
\<close>

theorem transfer_operators_prolongation:
  assumes "length (id' (Aggregates A (aggr prm))) = rows A"
  shows "nrows (fst (transfer_operators Aggregates A prm)) = rows A \<and>
         ncols (fst (transfer_operators Aggregates A prm)) = count (Aggregates A (aggr prm)) \<and>
         (\<forall>i < rows A.
            row_entries (fst (transfer_operators Aggregates A prm)) i =
              (if 0 \<le> id' (Aggregates A (aggr prm)) ! i
               then [(id' (Aggregates A (aggr prm)) ! i, 1)] else []))"
proof (intro conjI allI impI)
  show "nrows (fst (transfer_operators Aggregates A prm)) = rows A"
    by (simp add: transfer_operators_P_eq)
  show "ncols (fst (transfer_operators Aggregates A prm)) = count (Aggregates A (aggr prm))"
    by (simp add: transfer_operators_P_eq)
next
  fix i assume "i < rows A"
  with assms show "row_entries (fst (transfer_operators Aggregates A prm)) i =
              (if 0 \<le> id' (Aggregates A (aggr prm)) ! i
               then [(id' (Aggregates A (aggr prm)) ! i, 1)] else [])"
    by (rule transfer_operators_P_row)
qed

theorem transfer_operators_prolongation_witness:
  "length (id' ((\<lambda>A p. \<lparr>count = 1, id' = [0, 0, -1]\<rparr>)
      \<lparr>nrows = 3, ncols = 3, ptr = [0, 2, 4, 5], col = [0, 1, 0, 1, 2],
       val = [2, -1, -1, 2, 2 :: real]\<rparr> ())) = 3 \<and>
   nrows (fst (transfer_operators (\<lambda>A p. \<lparr>count = 1, id' = [0, 0, -1]\<rparr>)
      \<lparr>nrows = 3, ncols = 3, ptr = [0, 2, 4, 5], col = [0, 1, 0, 1, 2],
       val = [2, -1, -1, 2, 2]\<rparr> \<lparr>aggr = (), over_interp = 3 / 2\<rparr>)) = 3 \<and>
   ncols (fst (transfer_operators (\<lambda>A p. \<lparr>count = 1, id' = [0, 0, -1]\<rparr>)
      \<lparr>nrows = 3, ncols = 3, ptr = [0, 2, 4, 5], col = [0, 1, 0, 1, 2],
       val = [2, -1, -1, 2, 2]\<rparr> \<lparr>aggr = (), over_interp = 3 / 2\<rparr>)) = 1 \<and>
   row_entries (fst (transfer_operators (\<lambda>A p. \<lparr>count = 1, id' = [0, 0, -1]\<rparr>)
      \<lparr>nrows = 3, ncols = 3, ptr = [0, 2, 4, 5], col = [0, 1, 0, 1, 2],
       val = [2, -1, -1, 2, 2]\<rparr> \<lparr>aggr = (), over_interp = 3 / 2\<rparr>)) 1 = [(0, 1)] \<and>
   row_entries (fst (transfer_operators (\<lambda>A p. \<lparr>count = 1, id' = [0, 0, -1]\<rparr>)
      \<lparr>nrows = 3, ncols = 3, ptr = [0, 2, 4, 5], col = [0, 1, 0, 1, 2],
       val = [2, -1, -1, 2, 2]\<rparr> \<lparr>aggr = (), over_interp = 3 / 2\<rparr>)) 2 = []"
  using transfer_operators_prolongation
    [of "\<lambda>A p. \<lparr>count = 1, id' = [0, 0, -1]\<rparr>"
        "\<lparr>nrows = 3, ncols = 3, ptr = [0, 2, 4, 5], col = [0, 1, 0, 1, 2],
          val = [2, -1, -1, 2, 2]\<rparr>"
        "\<lparr>aggr = (), over_interp = 3 / 2\<rparr>"]
  by (simp add: rows_def)

lemma filter_row_transpose:
  assumes i: "i < nrows M" and j: "j < ncols M"
  shows "filter (\<lambda>e. fst e = int i) (row_entries (transpose_m M) j) =
         map (\<lambda>e. (int i, snd e)) (filter (\<lambda>e. fst e = int j) (row_entries M i))"
proof -
  let ?g = "\<lambda>i. map (\<lambda>e. (int i, snd e)) (filter (\<lambda>e. fst e = int j) (row_entries M i))"
  have "filter (\<lambda>e. fst e = int i) (concat (map ?g [0..<nrows M])) = filter (\<lambda>e. fst e = int i) (?g i)"
    using i by (intro filter_concat_single) (auto simp: filter_map o_def)
  also have "\<dots> = ?g i"
    by (simp add: filter_map o_def)
  finally show ?thesis
    unfolding row_entries_transpose[OF j] .
qed

lemma transpose_dims:
  "nrows (transpose_m M) = ncols M" "ncols (transpose_m M) = nrows M"
  by (simp_all add: transpose_m_def from_rows_def)

lemma row_entries_transpose_twice:
  assumes i: "i < nrows M"
  shows "row_entries (transpose_m (transpose_m M)) i =
           concat (map (\<lambda>j. map (\<lambda>e. (int j, snd e))
                                (filter (\<lambda>e. fst e = int j) (row_entries M i)))
                       [0..<ncols M])"
proof -
  have "row_entries (transpose_m (transpose_m M)) i =
          concat (map (\<lambda>j. map (\<lambda>e. (int j, snd e))
                               (filter (\<lambda>e. fst e = int i) (row_entries (transpose_m M) j)))
                      [0..<ncols M])"
    using i row_entries_transpose[of i "transpose_m M"] by (simp add: transpose_dims)
  also have "\<dots> = concat (map (\<lambda>j. map (\<lambda>e. (int j, snd e))
                                (filter (\<lambda>e. fst e = int j) (row_entries M i)))
                       [0..<ncols M])"
  proof -
    have "map (\<lambda>e. (int j, snd e))
              (filter (\<lambda>e. fst e = int i) (row_entries (transpose_m M) j)) =
          map (\<lambda>e. (int j, snd e)) (filter (\<lambda>e. fst e = int j) (row_entries M i))"
      if "j \<in> set [0..<ncols M]" for j
      using that i by (simp add: filter_row_transpose o_def)
    then show ?thesis by (metis (mono_tags, lifting) map_cong)
  qed
  finally show ?thesis .
qed

lemma concat_single:
  assumes "distinct xs" and "i \<in> set xs"
    and "\<And>k. k \<in> set xs \<Longrightarrow> k \<noteq> i \<Longrightarrow> g k = []"
  shows "concat (map g xs) = g i"
  using filter_concat_single[of xs i "\<lambda>_. True" g] assms by simp

lemma concat_all_empty:
  assumes "\<And>k. k \<in> set xs \<Longrightarrow> g k = []"
  shows "concat (map g xs) = []"
  using assms by (induction xs) auto

text \<open>
  Claim C5. When the aggregate assignment covers the rows of \<open>A\<close> and every id is below
  \<open>count\<close>, the restriction \<open>R\<close> returned by \<open>transfer_operators\<close> is the transpose of the
  prolongation \<open>P\<close> of the same call: \<open>R\<close> is \<open>count \<times> n\<close>, its coefficient at \<open>(j, i)\<close> is
  the coefficient of \<open>P\<close> at \<open>(i, j)\<close>, and transposing \<open>R\<close> gives back every row of \<open>P\<close>.
\<close>

theorem transfer_operators_restriction:
  assumes len: "length (id' (Aggregates A (aggr prm))) = rows A"
    and rng: "\<forall>c \<in> set (id' (Aggregates A (aggr prm))). c < int (count (Aggregates A (aggr prm)))"
  shows "snd (transfer_operators Aggregates A prm) =
           transpose_m (fst (transfer_operators Aggregates A prm)) \<and>
         nrows (snd (transfer_operators Aggregates A prm)) = count (Aggregates A (aggr prm)) \<and>
         ncols (snd (transfer_operators Aggregates A prm)) = rows A \<and>
         (\<forall>i < rows A. \<forall>j < count (Aggregates A (aggr prm)).
            entry (snd (transfer_operators Aggregates A prm)) j i =
            entry (fst (transfer_operators Aggregates A prm)) i j) \<and>
         (\<forall>i < rows A.
            row_entries (transpose_m (snd (transfer_operators Aggregates A prm))) i =
            row_entries (fst (transfer_operators Aggregates A prm)) i)"
proof -
  let ?P = "fst (transfer_operators Aggregates A prm)"
  let ?R = "snd (transfer_operators Aggregates A prm)"
  let ?ag = "Aggregates A (aggr prm)"
  have R: "?R = transpose_m ?P" by (rule transfer_operators_R_eq)
  have nr: "nrows ?P = rows A" and nc: "ncols ?P = count ?ag"
    by (simp_all add: transfer_operators_P_eq)
  have e: "entry ?R j i = entry ?P i j" if "i < rows A" "j < count ?ag" for i j
    unfolding R using that nr nc by (simp add: entry_transpose)
  have t: "row_entries (transpose_m ?R) i = row_entries ?P i" if i: "i < rows A" for i
  proof -
    let ?c = "id' ?ag ! i"
    have row: "row_entries ?P i = (if 0 \<le> ?c then [(?c, 1)] else [])"
      using len i by (rule transfer_operators_P_row)
    have tw: "row_entries (transpose_m ?R) i =
           concat (map (\<lambda>j. map (\<lambda>e. (int j, snd e))
                                (filter (\<lambda>e. fst e = int j) (row_entries ?P i)))
                       [0..<count ?ag])"
      unfolding R using row_entries_transpose_twice[of i ?P] i nr nc by simp
    show ?thesis
    proof (cases "0 \<le> ?c")
      case False
      then show ?thesis unfolding tw row by (simp add: concat_all_empty)
    next
      case True
      have "?c \<in> set (id' ?ag)" using i len by simp
      then have lt: "nat ?c < count ?ag" using rng True by auto
      have "concat (map (\<lambda>j. map (\<lambda>e. (int j, snd e))
                                (filter (\<lambda>e. fst e = int j) [(?c, 1::real)]))
                       [0..<count ?ag]) =
            map (\<lambda>e. (int (nat ?c), snd e)) (filter (\<lambda>e. fst e = int (nat ?c)) [(?c, 1::real)])"
        using lt True by (intro concat_single) auto
      then show ?thesis unfolding tw row using True by simp
    qed
  qed
  show ?thesis using R nr nc e t by (simp add: transpose_dims)
qed

theorem transfer_operators_restriction_witness:
  "length (id' ((\<lambda>A p. \<lparr>count = 1, id' = [0, 0, -1]\<rparr>)
      \<lparr>nrows = 3, ncols = 3, ptr = [0, 2, 4, 5], col = [0, 1, 0, 1, 2],
       val = [2, -1, -1, 2, 2 :: real]\<rparr> ())) = 3 \<and>
   snd (transfer_operators (\<lambda>A p. \<lparr>count = 1, id' = [0, 0, -1]\<rparr>)
      \<lparr>nrows = 3, ncols = 3, ptr = [0, 2, 4, 5], col = [0, 1, 0, 1, 2],
       val = [2, -1, -1, 2, 2]\<rparr> \<lparr>aggr = (), over_interp = 3 / 2\<rparr>) =
   transpose_m (fst (transfer_operators (\<lambda>A p. \<lparr>count = 1, id' = [0, 0, -1]\<rparr>)
      \<lparr>nrows = 3, ncols = 3, ptr = [0, 2, 4, 5], col = [0, 1, 0, 1, 2],
       val = [2, -1, -1, 2, 2]\<rparr> \<lparr>aggr = (), over_interp = 3 / 2\<rparr>)) \<and>
   entry (snd (transfer_operators (\<lambda>A p. \<lparr>count = 1, id' = [0, 0, -1]\<rparr>)
      \<lparr>nrows = 3, ncols = 3, ptr = [0, 2, 4, 5], col = [0, 1, 0, 1, 2],
       val = [2, -1, -1, 2, 2]\<rparr> \<lparr>aggr = (), over_interp = 3 / 2\<rparr>)) 0 1 =
   entry (fst (transfer_operators (\<lambda>A p. \<lparr>count = 1, id' = [0, 0, -1]\<rparr>)
      \<lparr>nrows = 3, ncols = 3, ptr = [0, 2, 4, 5], col = [0, 1, 0, 1, 2],
       val = [2, -1, -1, 2, 2]\<rparr> \<lparr>aggr = (), over_interp = 3 / 2\<rparr>)) 1 0 \<and>
   row_entries (transpose_m (snd (transfer_operators (\<lambda>A p. \<lparr>count = 1, id' = [0, 0, -1]\<rparr>)
      \<lparr>nrows = 3, ncols = 3, ptr = [0, 2, 4, 5], col = [0, 1, 0, 1, 2],
       val = [2, -1, -1, 2, 2]\<rparr> \<lparr>aggr = (), over_interp = 3 / 2\<rparr>))) 2 =
   row_entries (fst (transfer_operators (\<lambda>A p. \<lparr>count = 1, id' = [0, 0, -1]\<rparr>)
      \<lparr>nrows = 3, ncols = 3, ptr = [0, 2, 4, 5], col = [0, 1, 0, 1, 2],
       val = [2, -1, -1, 2, 2]\<rparr> \<lparr>aggr = (), over_interp = 3 / 2\<rparr>)) 2"
proof -
  let ?Ag = "\<lambda>(A :: real crs) (p :: unit). \<lparr>count = 1, id' = [0, 0, -1]\<rparr>"
  let ?A = "\<lparr>nrows = 3, ncols = 3, ptr = [0, 2, 4, 5], col = [0, 1, 0, 1, 2],
             val = [2, -1, -1, 2, 2 :: real]\<rparr>"
  let ?prm = "\<lparr>aggr = (), over_interp = 3 / 2\<rparr>"
  have len: "length (id' (?Ag ?A (aggr ?prm))) = rows ?A"
    by (simp add: rows_def)
  have rng: "\<forall>c \<in> set (id' (?Ag ?A (aggr ?prm))). c < int (count (?Ag ?A (aggr ?prm)))"
    by simp
  note t = transfer_operators_restriction [of ?Ag ?A ?prm, OF len rng]
  from t have a: "snd (transfer_operators ?Ag ?A ?prm) = transpose_m (fst (transfer_operators ?Ag ?A ?prm))"
    by (rule conjunct1)
  from t have b: "\<forall>i < rows ?A. \<forall>j < count (?Ag ?A (aggr ?prm)).
            entry (snd (transfer_operators ?Ag ?A ?prm)) j i =
            entry (fst (transfer_operators ?Ag ?A ?prm)) i j"
    by blast
  from t have c: "\<forall>i < rows ?A.
            row_entries (transpose_m (snd (transfer_operators ?Ag ?A ?prm))) i =
            row_entries (fst (transfer_operators ?Ag ?A ?prm)) i"
    by blast
  have b': "entry (snd (transfer_operators ?Ag ?A ?prm)) 0 1 =
            entry (fst (transfer_operators ?Ag ?A ?prm)) 1 0"
    using b by (simp add: rows_def)
  have c': "row_entries (transpose_m (snd (transfer_operators ?Ag ?A ?prm))) 2 =
            row_entries (fst (transfer_operators ?Ag ?A ?prm)) 2"
    using c by (simp add: rows_def)
  show ?thesis using a b' c' by simp
qed

text \<open>
  Claim C7 at a concrete input. For the matrix with rows \<open>(2, -1, 0)\<close>, \<open>(-1, 2, 0)\<close>,
  \<open>(0, 0, 2)\<close>, whose last row is isolated, and the aggregate ids \<open>0, 0, -1\<close>, the
  \<open>ptr\<close> array of \<open>P\<close> ends with \<open>2\<close> and \<open>col\<close> has two entries, but \<open>val\<close> has three:
  \<open>val\<close> does not store exactly one coefficient per nonzero.
\<close>

theorem transfer_operators_val_sentinel:
  "ptr (fst (transfer_operators (\<lambda>A p. \<lparr>count = 1, id' = [0, 0, -1]\<rparr>)
      \<lparr>nrows = 3, ncols = 3, ptr = [0, 2, 4, 5], col = [0, 1, 0, 1, 2],
       val = [2, -1, -1, 2, 2]\<rparr> \<lparr>aggr = (), over_interp = 3 / 2\<rparr>)) ! 3 = 2 \<and>
   length (col (fst (transfer_operators (\<lambda>A p. \<lparr>count = 1, id' = [0, 0, -1]\<rparr>)
      \<lparr>nrows = 3, ncols = 3, ptr = [0, 2, 4, 5], col = [0, 1, 0, 1, 2],
       val = [2, -1, -1, 2, 2]\<rparr> \<lparr>aggr = (), over_interp = 3 / 2\<rparr>))) = 2 \<and>
   length (val (fst (transfer_operators (\<lambda>A p. \<lparr>count = 1, id' = [0, 0, -1]\<rparr>)
      \<lparr>nrows = 3, ncols = 3, ptr = [0, 2, 4, 5], col = [0, 1, 0, 1, 2],
       val = [2, -1, -1, 2, 2]\<rparr> \<lparr>aggr = (), over_interp = 3 / 2\<rparr>))) = 3"
  by (simp add: transfer_operators_def rows_def P_loop.simps Let_def)

section \<open>Properties of the coarse operator\<close>

lemma filter_eq_distinct:
  "distinct ys \<Longrightarrow> filter (\<lambda>y. y = c) ys = (if c \<in> set ys then [c] else [])"
  by (induction ys) auto

lemma merge_row_entry:
  shows "sum_list (map snd (filter (\<lambda>e. fst e = c) (merge_row xs))) =
   sum_list (map snd (filter (\<lambda>e. fst e = c) xs))"
proof -
  let ?S = "\<lambda>c. sum_list (map snd (filter (\<lambda>e. fst e = c) xs))"
  have "filter (\<lambda>e. fst e = c) (merge_row xs) =
        map (\<lambda>c. (c, ?S c)) (filter (\<lambda>y. y = c) (remdups (map fst xs)))"
    by (simp add: merge_row_def filter_map o_def)
  also have "\<dots> = (if c \<in> fst ` set xs then [(c, ?S c)] else [])"
    by (simp add: filter_eq_distinct)
  finally have f: "filter (\<lambda>e. fst e = c) (merge_row xs) =
        (if c \<in> fst ` set xs then [(c, ?S c)] else [])" .
  show ?thesis
  proof (cases "c \<in> fst ` set xs")
    case True
    then show ?thesis by (simp add: f)
  next
    case False
    then have "filter (\<lambda>e. fst e = c) xs = []"
      by (auto simp: filter_empty_conv)
    then show ?thesis using False by (simp add: f)
  qed
qed

lemma scaled_filter_sum:
  fixes a :: real
  shows "sum_list (map snd (filter (\<lambda>f. fst f = j) (map (\<lambda>f. (fst f, a * snd f)) ys))) =
   a * sum_list (map snd (filter (\<lambda>f. fst f = j) ys))"
  by (induction ys) (auto simp: algebra_simps)

lemma concat_contrib_sum:
  fixes xs :: "('a \<times> real) list"
  shows "sum_list (map snd (filter (\<lambda>f. fst f = j)
      (concat (map (\<lambda>e. map (\<lambda>f. (fst f, snd e * snd f)) (g e)) xs)))) =
   sum_list (map (\<lambda>e. snd e * sum_list (map snd (filter (\<lambda>f. fst f = j) (g e)))) xs)"
  by (induction xs) (auto simp: scaled_filter_sum)

lemma group_by_column:
  fixes h :: "nat \<Rightarrow> real"
  assumes "list_all (\<lambda>e. 0 \<le> fst e \<and> fst e < int m) xs"
  shows "sum_list (map (\<lambda>e. snd e * h (nat (fst e))) xs) =
         sum_list (map (\<lambda>k. sum_list (map snd (filter (\<lambda>e. fst e = int k) xs)) * h k) [0..<m])"
  using assms
proof (induction xs)
  case Nil
  then show ?case by simp
next
  case (Cons e xs)
  then have r: "0 \<le> fst e" "nat (fst e) < m" by auto
  have one: "snd e * h (nat (fst e)) =
        sum_list (map (\<lambda>k. (if fst e = int k then snd e else 0) * h k) [0..<m])"
  proof -
    have "sum_list (map (\<lambda>k. (if fst e = int k then snd e else 0) * h k) [0..<m]) =
          (\<Sum>k\<in>{0..<m}. (if k = nat (fst e) then snd e * h k else 0))"
      unfolding interv_sum_list_conv_sum_set_nat using r
      by (intro sum.cong refl) auto
    also have "\<dots> = snd e * h (nat (fst e))"
      using r by simp
    finally show ?thesis by simp
  qed
  have split: "sum_list (map (\<lambda>k. sum_list (map snd (filter (\<lambda>e'. fst e' = int k) (e # xs))) * h k) [0..<m]) =
        sum_list (map (\<lambda>k. (if fst e = int k then snd e else 0) * h k) [0..<m]) +
        sum_list (map (\<lambda>k. sum_list (map snd (filter (\<lambda>e'. fst e' = int k) xs)) * h k) [0..<m])"
    unfolding sum_list_addf[symmetric]
    by (intro arg_cong[where f = sum_list] map_cong refl) (simp add: algebra_simps)
  show ?case using Cons one split by simp
qed

lemma product_dims:
  "nrows (product_m A B) = nrows A" "ncols (product_m A B) = ncols B"
  by (simp_all add: product_m_def from_rows_def)

lemma entry_product:
  assumes i: "i < nrows A"
    and r: "list_all (\<lambda>e. 0 \<le> fst e \<and> fst e < int (ncols A)) (row_entries A i)"
  shows "entry (product_m A B) i j =
         sum_list (map (\<lambda>k. entry A i k * entry B k j) [0..<ncols A])"
proof -
  have row: "row_entries (product_m A B) i = product_row A B i"
    using i by (simp add: product_m_def row_entries_from_rows)
  have "entry (product_m A B) i j =
        sum_list (map (\<lambda>e. snd e * entry B (nat (fst e)) j) (row_entries A i))"
    unfolding entry_def row product_row_def merge_row_entry concat_contrib_sum ..
  also have "\<dots> = sum_list (map (\<lambda>k. sum_list (map snd (filter (\<lambda>e. fst e = int k) (row_entries A i))) * entry B k j) [0..<ncols A])"
    using r by (rule group_by_column)
  finally show ?thesis by (simp add: entry_def)
qed

lemma cols_in_rangeD:
  "cols_in_range M \<Longrightarrow> i < nrows M \<Longrightarrow>
   list_all (\<lambda>e. 0 \<le> fst e \<and> fst e < int (ncols M)) (row_entries M i)"
  by (simp add: cols_in_range_def list_all_iff)

lemma entry_galerkin:
  assumes R: "cols_in_range R" and A: "cols_in_range A" and d: "ncols R = nrows A"
    and i: "i < nrows R"
  shows "entry (product_m R (product_m A P)) i j =
         sum_list (map (\<lambda>k. sum_list (map (\<lambda>l. entry R i k * (entry A k l * entry P l j))
                                          [0..<ncols A]))
                       [0..<ncols R])"
proof -
  have "entry (product_m R (product_m A P)) i j =
        sum_list (map (\<lambda>k. entry R i k * entry (product_m A P) k j) [0..<ncols R])"
    using i R by (intro entry_product cols_in_rangeD)
  also have "\<dots> = sum_list (map (\<lambda>k. entry R i k *
        sum_list (map (\<lambda>l. entry A k l * entry P l j) [0..<ncols A])) [0..<ncols R])"
    using A d by (intro arg_cong[where f = sum_list] map_cong refl)
      (simp add: entry_product cols_in_rangeD)
  finally show ?thesis by (simp add: sum_list_const_mult)
qed

lemma coarse_operator_finite:
  assumes "over_interp prm \<noteq> 0"
  shows "coarse_operator A P R prm =
           Inr \<lparr>nrows = nrows R, ncols = ncols P,
                ptr = ptr (product_m R (product_m A P)),
                col = col (product_m R (product_m A P)),
                val = map (\<lambda>v. Fin (1 / over_interp prm * v))
                          (val (product_m R (product_m A P)))\<rparr>"
  using assms
  by (simp add: coarse_operator_def scaled_galerkin_def scale_m_def product_dims)

lemma coarse_operator_ratio:
  "(case (coarse_operator A P R (prm\<lparr>over_interp := 1\<rparr>),
          coarse_operator A P R (prm\<lparr>over_interp := 2\<rparr>)) of
      (Inr H1, Inr H2) \<Rightarrow>
         ptr H1 = ptr H2 \<and> col H1 = col H2 \<and>
         list_all2 (\<lambda>v1 v2. case (v1, v2) of (Fin a, Fin b) \<Rightarrow> a = 2 * b | _ \<Rightarrow> False)
           (val H1) (val H2)
    | _ \<Rightarrow> False)"
  by (simp add: coarse_operator_def scaled_galerkin_def scale_m_def list_all2_map1
      list_all2_map2 list_all2_same)

text \<open>
  Claim C3. For a nonzero over-interpolation factor \<open>\<alpha>\<close>, \<open>coarse_operator\<close> returns
  the triple product \<open>R * A * P\<close> with every stored coefficient multiplied by \<open>1 / \<alpha>\<close>;
  for operands with column indices in range and \<open>ncols R = nrows A\<close> the coefficient of
  the triple product at \<open>(i, j)\<close> is the double sum of \<open>R(i,k) * A(k,l) * P(l,j)\<close>. The
  results for \<open>\<alpha> = 1\<close> and \<open>\<alpha> = 2\<close> have the same sparsity pattern, and every stored
  coefficient of the first is twice the corresponding coefficient of the second.
\<close>

theorem coarse_operator_scaled_galerkin:
  "(over_interp prm \<noteq> 0 \<longrightarrow>
      coarse_operator A P R prm =
        Inr \<lparr>nrows = nrows R, ncols = ncols P,
             ptr = ptr (product_m R (product_m A P)),
             col = col (product_m R (product_m A P)),
             val = map (\<lambda>v. Fin (1 / over_interp prm * v))
                       (val (product_m R (product_m A P)))\<rparr>) \<and>
   (cols_in_range R \<and> cols_in_range A \<and> ncols R = nrows A \<longrightarrow>
      (\<forall>i < nrows R. \<forall>j.
         entry (product_m R (product_m A P)) i j =
           sum_list (map (\<lambda>k. sum_list (map (\<lambda>l. entry R i k * (entry A k l * entry P l j))
                                            [0..<ncols A]))
                         [0..<ncols R]))) \<and>
   (case (coarse_operator A P R (prm\<lparr>over_interp := 1\<rparr>),
          coarse_operator A P R (prm\<lparr>over_interp := 2\<rparr>)) of
      (Inr H1, Inr H2) \<Rightarrow>
         ptr H1 = ptr H2 \<and> col H1 = col H2 \<and>
         list_all2 (\<lambda>v1 v2. case (v1, v2) of (Fin a, Fin b) \<Rightarrow> a = 2 * b | _ \<Rightarrow> False)
           (val H1) (val H2)
    | _ \<Rightarrow> False)"
proof (intro conjI impI allI)
  assume "over_interp prm \<noteq> 0"
  then show "coarse_operator A P R prm =
        Inr \<lparr>nrows = nrows R, ncols = ncols P,
             ptr = ptr (product_m R (product_m A P)),
             col = col (product_m R (product_m A P)),
             val = map (\<lambda>v. Fin (1 / over_interp prm * v))
                       (val (product_m R (product_m A P)))\<rparr>"
    by (rule coarse_operator_finite)
next
  fix i j
  assume "cols_in_range R \<and> cols_in_range A \<and> ncols R = nrows A" and "i < nrows R"
  then show "entry (product_m R (product_m A P)) i j =
           sum_list (map (\<lambda>k. sum_list (map (\<lambda>l. entry R i k * (entry A k l * entry P l j))
                                            [0..<ncols A]))
                         [0..<ncols R])"
    by (intro entry_galerkin) simp_all
next
  show "(case (coarse_operator A P R (prm\<lparr>over_interp := 1\<rparr>),
          coarse_operator A P R (prm\<lparr>over_interp := 2\<rparr>)) of
      (Inr H1, Inr H2) \<Rightarrow>
         ptr H1 = ptr H2 \<and> col H1 = col H2 \<and>
         list_all2 (\<lambda>v1 v2. case (v1, v2) of (Fin a, Fin b) \<Rightarrow> a = 2 * b | _ \<Rightarrow> False)
           (val H1) (val H2)
    | _ \<Rightarrow> False)"
    by (rule coarse_operator_ratio)
qed

lemma product_example:
  "product_m \<lparr>nrows = 1, ncols = 3, ptr = [0, 2], col = [0, 1], val = [1, 1]\<rparr>
     (product_m \<lparr>nrows = 3, ncols = 3, ptr = [0, 2, 4, 5], col = [0, 1, 0, 1, 2],
                 val = [2, -1, -1, 2, 2]\<rparr>
        \<lparr>nrows = 3, ncols = 1, ptr = [0, 1, 2, 2], col = [0, 0], val = [1, 1, 1]\<rparr>) =
   \<lparr>nrows = 1, ncols = 1, ptr = [0, 1], col = [0], val = [2]\<rparr>"
  by code_simp

theorem coarse_operator_scaled_galerkin_witness:
  "coarse_operator
     \<lparr>nrows = 3, ncols = 3, ptr = [0, 2, 4, 5], col = [0, 1, 0, 1, 2], val = [2, -1, -1, 2, 2]\<rparr>
     \<lparr>nrows = 3, ncols = 1, ptr = [0, 1, 2, 2], col = [0, 0], val = [1, 1, 1]\<rparr>
     \<lparr>nrows = 1, ncols = 3, ptr = [0, 2], col = [0, 1], val = [1, 1]\<rparr>
     \<lparr>aggr = (), over_interp = 3 / 2\<rparr> =
   Inr \<lparr>nrows = 1, ncols = 1, ptr = [0, 1], col = [0], val = [Fin (4 / 3)]\<rparr> \<and>
   entry (product_m \<lparr>nrows = 1, ncols = 3, ptr = [0, 2], col = [0, 1], val = [1, 1]\<rparr>
     (product_m \<lparr>nrows = 3, ncols = 3, ptr = [0, 2, 4, 5], col = [0, 1, 0, 1, 2],
                 val = [2, -1, -1, 2, 2]\<rparr>
        \<lparr>nrows = 3, ncols = 1, ptr = [0, 1, 2, 2], col = [0, 0], val = [1, 1, 1]\<rparr>)) 0 0 = 2"
proof -
  let ?A = "\<lparr>nrows = 3, ncols = 3, ptr = [0, 2, 4, 5], col = [0, 1, 0, 1, 2],
             val = [2, -1, -1, 2, 2 :: real]\<rparr>"
  let ?P = "\<lparr>nrows = 3, ncols = 1, ptr = [0, 1, 2, 2], col = [0, 0], val = [1, 1, 1 :: real]\<rparr>"
  let ?R = "\<lparr>nrows = 1, ncols = 3, ptr = [0, 2], col = [0, 1], val = [1, 1 :: real]\<rparr>"
  let ?prm = "\<lparr>aggr = (), over_interp = 3 / 2\<rparr>"
  note t = coarse_operator_scaled_galerkin [of ?prm ?A ?P ?R]
  have wf: "cols_in_range ?R \<and> cols_in_range ?A \<and> ncols ?R = nrows ?A"
    by code_simp
  have G: "product_m ?R (product_m ?A ?P) =
             \<lparr>nrows = 1, ncols = 1, ptr = [0, 1], col = [0], val = [2]\<rparr>"
    by code_simp
  have s: "sum_list (map (\<lambda>k. sum_list (map (\<lambda>l. entry ?R 0 k * (entry ?A k l * entry ?P l 0))
                                            [0..<ncols ?A]))
                         [0..<ncols ?R]) = 2"
    by code_simp
  from t have "coarse_operator ?A ?P ?R ?prm =
        Inr \<lparr>nrows = nrows ?R, ncols = ncols ?P,
             ptr = ptr (product_m ?R (product_m ?A ?P)),
             col = col (product_m ?R (product_m ?A ?P)),
             val = map (\<lambda>v. Fin (1 / over_interp ?prm * v))
                       (val (product_m ?R (product_m ?A ?P)))\<rparr>"
    by simp
  then have a: "coarse_operator ?A ?P ?R ?prm =
      Inr \<lparr>nrows = 1, ncols = 1, ptr = [0, 1], col = [0], val = [Fin (4 / 3)]\<rparr>"
    unfolding G by simp
  from t wf have "\<forall>i < nrows ?R. \<forall>j.
         entry (product_m ?R (product_m ?A ?P)) i j =
           sum_list (map (\<lambda>k. sum_list (map (\<lambda>l. entry ?R i k * (entry ?A k l * entry ?P l j))
                                            [0..<ncols ?A]))
                         [0..<ncols ?R])"
    by blast
  then have "entry (product_m ?R (product_m ?A ?P)) 0 0 =
           sum_list (map (\<lambda>k. sum_list (map (\<lambda>l. entry ?R 0 k * (entry ?A k l * entry ?P l 0))
                                            [0..<ncols ?A]))
                         [0..<ncols ?R])"
    by simp
  then have b: "entry (product_m ?R (product_m ?A ?P)) 0 0 = 2"
    unfolding s .
  show ?thesis using a b by simp
qed

text \<open>
  Claim C6 fails on the code: with \<open>over_interp = 0\<close> the call is not rejected with a
  configuration error. The quotient \<open>1 / 0\<close> is \<open>+\<infinity>\<close> and the coarse matrix, here the
  \<open>1 \<times> 1\<close> matrix of the aggregate of rows \<open>0\<close> and \<open>1\<close>, is built with the coefficient
  \<open>+\<infinity>\<close>.
\<close>

theorem coarse_operator_zero_not_rejected:
  "coarse_operator
     \<lparr>nrows = 3, ncols = 3, ptr = [0, 2, 4, 5], col = [0, 1, 0, 1, 2], val = [2, -1, -1, 2, 2]\<rparr>
     \<lparr>nrows = 3, ncols = 1, ptr = [0, 1, 2, 2], col = [0, 0], val = [1, 1, 1]\<rparr>
     \<lparr>nrows = 1, ncols = 3, ptr = [0, 2], col = [0, 1], val = [1, 1]\<rparr>
     \<lparr>aggr = (), over_interp = 0\<rparr> \<noteq> Inl ConfigurationError \<and>
   coarse_operator
     \<lparr>nrows = 3, ncols = 3, ptr = [0, 2, 4, 5], col = [0, 1, 0, 1, 2], val = [2, -1, -1, 2, 2]\<rparr>
     \<lparr>nrows = 3, ncols = 1, ptr = [0, 1, 2, 2], col = [0, 0], val = [1, 1, 1]\<rparr>
     \<lparr>nrows = 1, ncols = 3, ptr = [0, 2], col = [0, 1], val = [1, 1]\<rparr>
     \<lparr>aggr = (), over_interp = 0\<rparr> =
   Inr \<lparr>nrows = 1, ncols = 1, ptr = [0, 1], col = [0], val = [PInf]\<rparr>"
proof -
  have G: "product_m \<lparr>nrows = 1, ncols = 3, ptr = [0, 2], col = [0, 1], val = [1, 1]\<rparr>
     (product_m \<lparr>nrows = 3, ncols = 3, ptr = [0, 2, 4, 5], col = [0, 1, 0, 1, 2],
                 val = [2, -1, -1, 2, 2]\<rparr>
        \<lparr>nrows = 3, ncols = 1, ptr = [0, 1, 2, 2], col = [0, 0], val = [1, 1, 1]\<rparr>) =
     \<lparr>nrows = 1, ncols = 1, ptr = [0, 1], col = [0], val = [2]\<rparr>"
    by code_simp
  show ?thesis
    unfolding coarse_operator_def scaled_galerkin_def G by (simp add: scale_m_def)
qed

lemma fmul_PInf_not_finite: "\<not> is_finite (fmul PInf x)"
  by (cases x) auto

text \<open>
  Claim C6 as amended. For \<open>over_interp = 0\<close> the function \<open>coarse_operator\<close> reports no
  error: it passes the quotient \<open>1 / 0 = +\<infinity>\<close> to \<open>scaled_galerkin\<close> and returns its
  result, a matrix none of whose stored coefficients is finite.
\<close>

theorem coarse_operator_zero_over_interp:
  "coarse_operator A P R (prm\<lparr>over_interp := 0\<rparr>) = Inr (scaled_galerkin A P R PInf) \<and>
   list_all (\<lambda>v. \<not> is_finite v) (val (scaled_galerkin A P R PInf))"
proof -
  have "list_all (\<lambda>v. \<not> is_finite v) (map (\<lambda>v. fmul PInf (Fin v)) vs)" for vs
    by (induction vs) (simp_all only: list.map list.pred_inject fmul_PInf_not_finite simp_thms)
  then show ?thesis
    by (simp add: coarse_operator_def scaled_galerkin_def scale_m_def)
qed

theorem coarse_operator_zero_over_interp_witness:
  "coarse_operator
     \<lparr>nrows = 3, ncols = 3, ptr = [0, 2, 4, 5], col = [0, 1, 0, 1, 2], val = [2, -1, -1, 2, 2]\<rparr>
     \<lparr>nrows = 3, ncols = 1, ptr = [0, 1, 2, 2], col = [0, 0], val = [1, 1, 1]\<rparr>
     \<lparr>nrows = 1, ncols = 3, ptr = [0, 2], col = [0, 1], val = [1, 1]\<rparr>
     \<lparr>aggr = (), over_interp = 0\<rparr> =
   Inr (scaled_galerkin
     \<lparr>nrows = 3, ncols = 3, ptr = [0, 2, 4, 5], col = [0, 1, 0, 1, 2], val = [2, -1, -1, 2, 2]\<rparr>
     \<lparr>nrows = 3, ncols = 1, ptr = [0, 1, 2, 2], col = [0, 0], val = [1, 1, 1]\<rparr>
     \<lparr>nrows = 1, ncols = 3, ptr = [0, 2], col = [0, 1], val = [1, 1]\<rparr> PInf)"
  using coarse_operator_zero_over_interp
    [of "\<lparr>nrows = 3, ncols = 3, ptr = [0, 2, 4, 5], col = [0, 1, 0, 1, 2], val = [2, -1, -1, 2, 2]\<rparr>"
        "\<lparr>nrows = 3, ncols = 1, ptr = [0, 1, 2, 2], col = [0, 0], val = [1, 1, 1]\<rparr>"
        "\<lparr>nrows = 1, ncols = 3, ptr = [0, 2], col = [0, 1], val = [1, 1]\<rparr>"
        "\<lparr>aggr = (), over_interp = 3 / 2\<rparr>"]
  by simp

section \<open>Properties of the cycles\<close>

lemma for_loop_funpow:
  "for_loop i n (\<lambda>j. f) s = (f ^^ (n - i)) s"
proof (induction i n "\<lambda>j::nat. f" s rule: for_loop.induct)
  case (1 i n s)
  show ?case
  proof (cases "i < n")
    case True
    then have "n - i = Suc (n - (i + 1))" by simp
    then show ?thesis
      using 1 True by (subst for_loop.simps) (simp add: funpow_swap1)
  next
    case False
    then show ?thesis by (subst for_loop.simps) simp
  qed
qed

lemma for_loop_two:
  "for_loop 0 2 body s = body 1 (body 0 s)"
  by (subst for_loop.simps, simp, subst for_loop.simps, simp, subst for_loop.simps, simp)

text \<open>
  Claim C1. At a level that has a next level, \<open>cycle\<close> performs the V-cycle pass
  \<open>ncycle\<close> times in sequence: \<open>npre\<close> relaxation steps on \<open>(rhs, x)\<close>, the residual
  \<open>rhs - A x\<close>, its restriction by \<open>R\<close>, the recursive solve on the next level from the zero
  initial guess, the prolongation by \<open>P\<close> added onto \<open>x\<close>, and \<open>npost\<close> relaxation steps. At
  the last level \<open>cycle\<close> returns \<open>Ainv * rhs\<close> and recurses no further.
\<close>

theorem cycle_is_vcycle:
  "cycle lvl (nxt # rest) prm rhs x = (vcycle_pass lvl nxt rest prm rhs ^^ ncycle prm) x \<and>
   cycle lvl [] prm rhs x = prod_mv (lvl_Ainv lvl) rhs"
proof -
  have "cycle lvl (nxt # rest) prm rhs x =
        for_loop 0 (ncycle prm) (\<lambda>j. vcycle_pass lvl nxt rest prm rhs) x"
    unfolding cycle.simps
    by (rule for_loop_cong)
      (simp_all add: vcycle_pass_def coarse_solve_def for_loop_funpow clear_def zeros_def Let_def)
  then show ?thesis
    by (simp add: for_loop_funpow)
qed

text \<open>
  Claim C2. At a level that has a next level, \<open>kcycle\<close> performs exactly two iterations,
  whatever the residuals are: each preconditions the current residual \<open>r\<close> by one
  \<open>cycle\<close> from the zero vector into \<open>s\<close>, sets \<open>rho1 = <r, s>\<close>, takes \<open>p = s\<close> in the
  first iteration and \<open>p = s + (rho1 / rho2) p\<close> in the second, computes \<open>q = A p\<close> and
  \<open>alpha = rho1 / <q, p>\<close>, and updates \<open>x += alpha p\<close> and \<open>r -= alpha q\<close>. The \<open>x\<close> that
  \<open>kcycle\<close> returns is the \<open>x\<close> after the second iteration.
\<close>

theorem kcycle_is_two_iterations:
  "kcycle lvl (nxt # rest) prm rhs x = fst (kcycle_two_iterations lvl (nxt # rest) prm rhs x)"
  by (simp add: for_loop_two kcycle_two_iterations_def clear_def zeros_def Let_def)

lemma for_loop_weak_cong:
  "i = i' \<Longrightarrow> n = n' \<Longrightarrow> s = s' \<Longrightarrow> for_loop i n body s = for_loop i' n' body s'"
  by simp

lemma replicate_two: "replicate 2 v = [v, v]"
  by (simp add: numeral_2_eq_2)

lemmas level_eval = replicate_two
  relax_def prod_mv_def dot_row_def row_entries_def instance_level_def instance_coarsest_def
  vsub_def vadd_def scal_def element_div_def inner_prod_def clear_def zeros_def
  cg0_def cg1_def cg2_def diagonal_def fsub_def empty_matrix_def Let_def upt_conv_Cons

theorem cycle_is_vcycle_witness:
  "cycle
     (instance_level
        \<lparr>nrows = 2, ncols = 2, ptr = [0, 2, 4], col = [0, 1, 0, 1],
         val = [Fin 2, Fin (- 1), Fin (- 1), Fin 2]\<rparr>
        \<lparr>nrows = 2, ncols = 1, ptr = [0, 1, 2], col = [0, 0], val = [Fin 1, Fin 1]\<rparr>
        \<lparr>nrows = 1, ncols = 2, ptr = [0, 2], col = [0, 1], val = [Fin 1, Fin 1]\<rparr>
        \<lparr>npre = 1, npost = 1, ncycle = 1, kcycle_every = 0\<rparr> 0)
     [instance_coarsest
        \<lparr>nrows = 1, ncols = 1, ptr = [0, 1], col = [0], val = [Fin 2]\<rparr>
        \<lparr>nrows = 1, ncols = 1, ptr = [0, 1], col = [0], val = [Fin (1 / 2)]\<rparr>
        \<lparr>npre = 1, npost = 1, ncycle = 1, kcycle_every = 0\<rparr> 1]
     \<lparr>npre = 1, npost = 1, ncycle = 1, kcycle_every = 0\<rparr>
     [Fin 1, Fin 0] [Fin 0, Fin 0] =
   [Fin (416 / 625), Fin (209 / 625)]"
proof -
  let ?prm = "\<lparr>npre = 1, npost = 1, ncycle = 1, kcycle_every = 0\<rparr>"
  let ?L0 = "instance_level
        \<lparr>nrows = 2, ncols = 2, ptr = [0, 2, 4], col = [0, 1, 0, 1],
         val = [Fin 2, Fin (- 1), Fin (- 1), Fin 2]\<rparr>
        \<lparr>nrows = 2, ncols = 1, ptr = [0, 1, 2], col = [0, 0], val = [Fin 1, Fin 1]\<rparr>
        \<lparr>nrows = 1, ncols = 2, ptr = [0, 2], col = [0, 1], val = [Fin 1, Fin 1]\<rparr>
        ?prm 0"
  let ?Lc = "instance_coarsest
        \<lparr>nrows = 1, ncols = 1, ptr = [0, 1], col = [0], val = [Fin 2]\<rparr>
        \<lparr>nrows = 1, ncols = 1, ptr = [0, 1], col = [0], val = [Fin (1 / 2)]\<rparr>
        ?prm 1"
  have e: "(vcycle_pass ?L0 ?Lc [] ?prm [Fin 1, Fin 0] ^^ ncycle ?prm) [Fin 0, Fin 0] =
           [Fin (416 / 625), Fin (209 / 625)]"
    by (simp add: vcycle_pass_def coarse_solve_def level_eval)
  from cycle_is_vcycle [of ?L0 ?Lc "[]" ?prm "[Fin 1, Fin 0]" "[Fin 0, Fin 0]"]
  have "cycle ?L0 [?Lc] ?prm [Fin 1, Fin 0] [Fin 0, Fin 0] =
        (vcycle_pass ?L0 ?Lc [] ?prm [Fin 1, Fin 0] ^^ ncycle ?prm) [Fin 0, Fin 0]"
    by (rule conjunct1)
  then show ?thesis unfolding e .
qed

theorem kcycle_is_two_iterations_witness:
  "kcycle
     (instance_level
        \<lparr>nrows = 2, ncols = 2, ptr = [0, 2, 4], col = [0, 1, 0, 1],
         val = [Fin 2, Fin (- 1), Fin (- 1), Fin 2]\<rparr>
        \<lparr>nrows = 2, ncols = 1, ptr = [0, 1, 2], col = [0, 0], val = [Fin 1, Fin 1]\<rparr>
        \<lparr>nrows = 1, ncols = 2, ptr = [0, 2], col = [0, 1], val = [Fin 1, Fin 1]\<rparr>
        \<lparr>npre = 1, npost = 1, ncycle = 1, kcycle_every = 1\<rparr> 1)
     [instance_coarsest
        \<lparr>nrows = 1, ncols = 1, ptr = [0, 1], col = [0], val = [Fin 2]\<rparr>
        \<lparr>nrows = 1, ncols = 1, ptr = [0, 1], col = [0], val = [Fin (1 / 2)]\<rparr>
        \<lparr>npre = 1, npost = 1, ncycle = 1, kcycle_every = 1\<rparr> 2]
     \<lparr>npre = 1, npost = 1, ncycle = 1, kcycle_every = 1\<rparr>
     [Fin 1, Fin 0] [Fin 0, Fin 0] =
   [Fin (2 / 3), Fin (1 / 3)]"
proof -
  let ?prm = "\<lparr>npre = 1, npost = 1, ncycle = 1, kcycle_every = 1\<rparr>"
  let ?L1 = "instance_level
        \<lparr>nrows = 2, ncols = 2, ptr = [0, 2, 4], col = [0, 1, 0, 1],
         val = [Fin 2, Fin (- 1), Fin (- 1), Fin 2]\<rparr>
        \<lparr>nrows = 2, ncols = 1, ptr = [0, 1, 2], col = [0, 0], val = [Fin 1, Fin 1]\<rparr>
        \<lparr>nrows = 1, ncols = 2, ptr = [0, 2], col = [0, 1], val = [Fin 1, Fin 1]\<rparr>
        ?prm 1"
  let ?Lc = "instance_coarsest
        \<lparr>nrows = 1, ncols = 1, ptr = [0, 1], col = [0], val = [Fin 2]\<rparr>
        \<lparr>nrows = 1, ncols = 1, ptr = [0, 1], col = [0], val = [Fin (1 / 2)]\<rparr>
        ?prm 2"
  have e: "fst (kcycle_two_iterations ?L1 [?Lc] ?prm [Fin 1, Fin 0] [Fin 0, Fin 0]) =
           [Fin (2 / 3), Fin (1 / 3)]"
    by (simp add: kcycle_two_iterations_def for_loop.simps level_eval
        cong: for_loop_weak_cong let_weak_cong)
  show ?thesis
    unfolding kcycle_is_two_iterations [of ?L1 ?Lc "[]" ?prm "[Fin 1, Fin 0]" "[Fin 0, Fin 0]"] e ..
qed

section \<open>Properties of the relaxation\<close>

lemma is_finite_iff: "is_finite v \<longleftrightarrow> (\<exists>a. v = Fin a)"
  by (cases v) auto

lemma row_entries_val: "e \<in> set (row_entries M i) \<Longrightarrow> snd e \<in> set (val M)"
  unfolding row_entries_def Let_def
  by (metis in_set_dropD in_set_takeD prod.collapse set_zip_rightD)

lemma dot_row_finite:
  assumes "list_all (\<lambda>e. is_finite (snd e) \<and> 0 \<le> fst e \<and> nat (fst e) < length x) r"
    and "list_all is_finite x"
  shows "is_finite (dot_row r x)"
proof -
  have "is_finite (foldl (\<lambda>acc e. fadd acc (fmul (snd e) (x ! nat (fst e)))) acc r)"
    if "is_finite acc" for acc
    using assms(1) that
  proof (induction r arbitrary: acc)
    case Nil
    then show ?case by simp
  next
    case (Cons e r)
    from Cons.prems obtain a where a: "snd e = Fin a" by (auto simp: is_finite_iff)
    from Cons.prems have "nat (fst e) < length x" by simp
    then have "is_finite (x ! nat (fst e))"
      using assms(2) by (simp add: list_all_length)
    then obtain b where b: "x ! nat (fst e) = Fin b" by (auto simp: is_finite_iff)
    from Cons.prems obtain c where c: "acc = Fin c" by (auto simp: is_finite_iff)
    have "is_finite (fadd acc (fmul (snd e) (x ! nat (fst e))))"
      by (simp add: a b c)
    then show ?case using Cons by simp
  qed
  then show ?thesis by (simp add: dot_row_def)
qed

lemma prod_mv_length: "length (prod_mv M x) = nrows M"
  by (simp add: prod_mv_def)

lemma prod_mv_finite:
  assumes "list_all is_finite (val M)" and "cols_in_range M" and "ncols M = length x"
    and "list_all is_finite x" and "i < nrows M"
  shows "is_finite (prod_mv M x ! i)"
proof -
  have "list_all (\<lambda>e. is_finite (snd e) \<and> 0 \<le> fst e \<and> nat (fst e) < length x) (row_entries M i)"
    unfolding list_all_iff
  proof
    fix e assume e: "e \<in> set (row_entries M i)"
    then have "is_finite (snd e)"
      using assms(1) row_entries_val[OF e] by (simp add: list_all_iff)
    moreover have "0 \<le> fst e \<and> fst e < int (ncols M)"
      using cols_in_rangeD[OF assms(2) assms(5)] e by (simp add: list_all_iff)
    ultimately show "is_finite (snd e) \<and> 0 \<le> fst e \<and> nat (fst e) < length x"
      using assms(3) by auto
  qed
  then have "is_finite (dot_row (row_entries M i) x)"
    using assms(4) by (rule dot_row_finite)
  then show ?thesis using assms(5) by (simp add: prod_mv_def)
qed

lemma diagonal_length: "length (diagonal a) = nrows a"
  by (simp add: diagonal_def)

lemma diagonal_finite:
  assumes "list_all is_finite (val a)" and "i < nrows a"
  shows "is_finite (diagonal a ! i)"
proof (cases "filter (\<lambda>e. fst e = int i) (row_entries a i)")
  case Nil
  then show ?thesis using assms(2) by (simp add: diagonal_def)
next
  case (Cons e es)
  then have "e \<in> set (filter (\<lambda>e. fst e = int i) (row_entries a i))" by simp
  then have "e \<in> set (row_entries a i)" by simp
  then have "snd e \<in> set (val a)" by (rule row_entries_val)
  then have "is_finite (snd e)"
    using assms(1) by (simp add: list_all_iff)
  then show ?thesis using assms(2) Cons by (simp add: diagonal_def)
qed

lemma relax_component_finite:
  "is_finite (fadd (Fin xi) (fmul (Fin (72 / 100)) (fdiv (fsub (Fin b) (Fin t)) (Fin dv))))
     \<longleftrightarrow> dv \<noteq> 0"
  by (auto simp: fsub_def)

lemma relax_nth:
  assumes "i < length x" "i < length rhs" "i < nrows (lvl_A lvl)" "i < length (lvl_d lvl)"
  shows "relax lvl rhs x ! i =
           fadd (x ! i) (fmul (Fin (72 / 100))
             (fdiv (fsub (rhs ! i) (prod_mv (lvl_A lvl) x ! i)) (lvl_d lvl ! i)))"
  using assms
  by (simp add: relax_def vadd_def scal_def element_div_def vsub_def prod_mv_length Let_def)

text \<open>
  Claim C10. \<open>relax\<close> divides the residual componentwise by the cached diagonal \<open>d\<close>,
  which the constructor copied from the diagonal of \<open>A\<close>, and nothing guards the
  division. For a level built from a finite matrix \<open>A\<close> with column indices in range,
  and finite vectors \<open>rhs\<close> and \<open>x\<close> of the size of \<open>A\<close>, component \<open>i\<close> of the result is
  finite exactly when the diagonal coefficient of row \<open>i\<close> is not zero: a zero diagonal
  coefficient is divided by and leaves an infinity or a NaN in \<open>x\<close>; no division by zero
  occurs only when every diagonal coefficient is nonzero.
\<close>

theorem relax_divides_by_diagonal:
  assumes "list_all is_finite (val a)" and "cols_in_range a" and "ncols a = nrows a"
    and "length x = nrows a" and "list_all is_finite x"
    and "length rhs = nrows a" and "list_all is_finite rhs"
  shows "lvl_d (instance_level a p r prm nlevel) = diagonal a \<and>
         relax (instance_level a p r prm nlevel) rhs x =
           vadd x (scal (Fin (72 / 100))
             (element_div (vsub rhs (prod_mv a x)) (diagonal a))) \<and>
         length (relax (instance_level a p r prm nlevel) rhs x) = nrows a \<and>
         (\<forall>i < nrows a.
            is_finite (relax (instance_level a p r prm nlevel) rhs x ! i) \<longleftrightarrow>
            diagonal a ! i \<noteq> Fin 0)"
proof -
  let ?L = "instance_level a p r prm nlevel"
  have d: "lvl_d ?L = diagonal a" and A: "lvl_A ?L = a"
    by (simp_all add: instance_level_def)
  have eq: "relax ?L rhs x =
           vadd x (scal (Fin (72 / 100)) (element_div (vsub rhs (prod_mv a x)) (diagonal a)))"
    by (simp add: relax_def d A Let_def)
  have len: "length (relax ?L rhs x) = nrows a"
    using assms(4,6)
    by (simp add: eq vadd_def scal_def element_div_def vsub_def prod_mv_length diagonal_length)
  have comp: "is_finite (relax ?L rhs x ! i) \<longleftrightarrow> diagonal a ! i \<noteq> Fin 0" if i: "i < nrows a" for i
  proof -
    have n: "relax ?L rhs x ! i =
           fadd (x ! i) (fmul (Fin (72 / 100))
             (fdiv (fsub (rhs ! i) (prod_mv a x ! i)) (diagonal a ! i)))"
      using relax_nth[of i x rhs ?L] i assms(4,6) by (simp add: d A diagonal_length)
    obtain xi where xi: "x ! i = Fin xi"
      using assms(4,5) i by (auto simp: list_all_length is_finite_iff)
    obtain b where b: "rhs ! i = Fin b"
      using assms(6,7) i by (auto simp: list_all_length is_finite_iff)
    obtain t where t: "prod_mv a x ! i = Fin t"
      using prod_mv_finite[of a x i] assms i by (auto simp: is_finite_iff)
    obtain dv where dv: "diagonal a ! i = Fin dv"
      using diagonal_finite[of a i] assms(1) i by (auto simp: is_finite_iff)
    show ?thesis
      unfolding n xi b t dv using relax_component_finite[of xi b t dv] by simp
  qed
  show ?thesis using d eq len comp by blast
qed

theorem relax_divides_by_diagonal_witness:
  "relax (instance_level
        \<lparr>nrows = 2, ncols = 2, ptr = [0, 2, 3], col = [0, 1, 0],
         val = [Fin 2, Fin (- 1), Fin (- 1)]\<rparr>
        \<lparr>nrows = 2, ncols = 1, ptr = [0, 1, 2], col = [0, 0], val = [Fin 1, Fin 1]\<rparr>
        \<lparr>nrows = 1, ncols = 2, ptr = [0, 2], col = [0, 1], val = [Fin 1, Fin 1]\<rparr>
        \<lparr>npre = 1, npost = 1, ncycle = 1, kcycle_every = 0\<rparr> 0)
     [Fin 1, Fin 1] [Fin 0, Fin 0] = [Fin (9 / 25), PInf] \<and>
   diagonal \<lparr>nrows = 2, ncols = 2, ptr = [0, 2, 3], col = [0, 1, 0],
         val = [Fin 2, Fin (- 1), Fin (- 1)]\<rparr> ! 1 = Fin 0 \<and>
   \<not> is_finite (relax (instance_level
        \<lparr>nrows = 2, ncols = 2, ptr = [0, 2, 3], col = [0, 1, 0],
         val = [Fin 2, Fin (- 1), Fin (- 1)]\<rparr>
        \<lparr>nrows = 2, ncols = 1, ptr = [0, 1, 2], col = [0, 0], val = [Fin 1, Fin 1]\<rparr>
        \<lparr>nrows = 1, ncols = 2, ptr = [0, 2], col = [0, 1], val = [Fin 1, Fin 1]\<rparr>
        \<lparr>npre = 1, npost = 1, ncycle = 1, kcycle_every = 0\<rparr> 0)
     [Fin 1, Fin 1] [Fin 0, Fin 0] ! 1)"
proof -
  let ?a = "\<lparr>nrows = 2, ncols = 2, ptr = [0, 2, 3], col = [0, 1, 0],
         val = [Fin 2, Fin (- 1), Fin (- 1)]\<rparr>"
  let ?p = "\<lparr>nrows = 2, ncols = 1, ptr = [0, 1, 2], col = [0, 0], val = [Fin 1, Fin 1]\<rparr>"
  let ?r = "\<lparr>nrows = 1, ncols = 2, ptr = [0, 2], col = [0, 1], val = [Fin 1, Fin 1]\<rparr>"
  let ?prm = "\<lparr>npre = 1, npost = 1, ncycle = 1, kcycle_every = 0\<rparr>"
  have h1: "list_all is_finite (val ?a)" by simp
  have h2: "cols_in_range ?a"
    by (simp add: cols_in_range_def row_entries_def upt_conv_Cons)
  have h3: "ncols ?a = nrows ?a" by simp
  have h4: "length [Fin 0, Fin 0] = nrows ?a" by simp
  have h5: "list_all is_finite [Fin 0, Fin 0]" by simp
  have h6: "length [Fin 1, Fin 1] = nrows ?a" by simp
  have h7: "list_all is_finite [Fin 1, Fin 1]" by simp
  note t = relax_divides_by_diagonal [OF h1 h2 h3 h4 h5 h6 h7, of ?p ?r ?prm 0]
  have d: "diagonal ?a ! 1 = Fin 0"
    by (simp add: diagonal_def row_entries_def upt_conv_Cons)
  have e: "vadd [Fin 0, Fin 0] (scal (Fin (72 / 100))
             (element_div (vsub [Fin 1, Fin 1] (prod_mv ?a [Fin 0, Fin 0])) (diagonal ?a))) =
           [Fin (9 / 25), PInf]"
    by (simp add: level_eval)
  from t have "relax (instance_level ?a ?p ?r ?prm 0) [Fin 1, Fin 1] [Fin 0, Fin 0] =
           vadd [Fin 0, Fin 0] (scal (Fin (72 / 100))
             (element_div (vsub [Fin 1, Fin 1] (prod_mv ?a [Fin 0, Fin 0])) (diagonal ?a)))"
    by blast
  then have r: "relax (instance_level ?a ?p ?r ?prm 0) [Fin 1, Fin 1] [Fin 0, Fin 0] =
           [Fin (9 / 25), PInf]"
    unfolding e .
  from t have "\<forall>i < nrows ?a.
            is_finite (relax (instance_level ?a ?p ?r ?prm 0) [Fin 1, Fin 1] [Fin 0, Fin 0] ! i) \<longleftrightarrow>
            diagonal ?a ! i \<noteq> Fin 0"
    by blast
  then have "is_finite (relax (instance_level ?a ?p ?r ?prm 0) [Fin 1, Fin 1] [Fin 0, Fin 0] ! 1) \<longleftrightarrow>
            diagonal ?a ! 1 \<noteq> Fin 0"
    by simp
  with d have n: "\<not> is_finite (relax (instance_level ?a ?p ?r ?prm 0) [Fin 1, Fin 1] [Fin 0, Fin 0] ! 1)"
    by simp
  show ?thesis using r d n by blast
qed

section \<open>Properties of the direct solver wrapper\<close>

text \<open>
  Claim C8 fails on the code: for the singular \<open>1 \<times> 1\<close> matrix \<open>(0)\<close> the factorization
  records \<open>NumericalIssue\<close>, and the constructor still returns a solver object, whose
  \<open>operator()\<close> then answers the right-hand side \<open>1\<close> with \<open>0\<close>.
\<close>

theorem EigenSolver_singular_constructed:
  "EigenSolver_new scalar_solver
     \<lparr>nrows = 1, ncols = 1, ptr = [0, 1], col = [0], val = [Fin 0]\<rparr> =
     Inr \<lparr>es_n = 1, es_S = (NumericalIssue, Fin 0)\<rparr> \<and>
   info scalar_solver (NumericalIssue, Fin 0) = NumericalIssue \<and>
   EigenSolver_apply scalar_solver \<lparr>es_n = 1, es_S = (NumericalIssue, Fin 0)\<rparr> [Fin 1] [Fin 7]
     = [Fin 0]"
  by (simp add: EigenSolver_new_def EigenSolver_apply_def scalar_solver_def rows_def)

text \<open>
  Claim C8 as amended. The constructor of \<open>EigenSolver\<close> reports no error of its own: for
  every solver and every matrix it returns the object that holds the state \<open>compute\<close>
  left, whatever status that state records, and \<open>operator()\<close> of the object applies
  \<open>solve\<close> on that state.
\<close>

theorem EigenSolver_new_ignores_info:
  "EigenSolver_new slv A = Inr \<lparr>es_n = rows A, es_S = compute slv A\<rparr> \<and>
   (case EigenSolver_new slv A of
      Inl e \<Rightarrow> False
    | Inr es \<Rightarrow> info slv (es_S es) = info slv (compute slv A) \<and>
               EigenSolver_apply slv es rhs x =
                 take (rows A) (solve slv (compute slv A) (take (rows A) rhs)) @ drop (rows A) x)"
  by (simp add: EigenSolver_new_def EigenSolver_apply_def)

theorem EigenSolver_new_ignores_info_witness:
  "EigenSolver_new scalar_solver
     \<lparr>nrows = 1, ncols = 1, ptr = [0, 1], col = [0], val = [Fin 2]\<rparr> =
     Inr \<lparr>es_n = 1, es_S = (Success, Fin (1 / 2))\<rparr>"
  using EigenSolver_new_ignores_info
    [of scalar_solver "\<lparr>nrows = 1, ncols = 1, ptr = [0, 1], col = [0], val = [Fin 2]\<rparr>"]
  by (simp add: scalar_solver_def rows_def)

section \<open>Properties of the repartitioning decision\<close>

lemma exclusive_sum_from_length: "length (exclusive_sum_from a ns) = Suc (length ns)"
  by (induction ns arbitrary: a) auto

lemma exclusive_sum_from_nth:
  "i \<le> length ns \<Longrightarrow> exclusive_sum_from a ns ! i = a + sum_list (take i ns)"
proof (induction ns arbitrary: a i)
  case Nil then show ?case by simp
next
  case (Cons n ns)
  then show ?case by (cases i) (auto)
qed

lemma exclusive_sum_diff:
  "i < length ns \<Longrightarrow> exclusive_sum ns ! (i + 1) - exclusive_sum ns ! i = ns ! i"
  by (simp add: exclusive_sum_def exclusive_sum_from_nth take_Suc_conv_app_nth)

lemma is_needed_loop_eq:
  "i \<le> length ns \<Longrightarrow>
   is_needed_loop (exclusive_sum ns) (length ns) i (c, m) =
     (c + int (length (filter (\<lambda>n. n \<noteq> 0) (drop i ns))),
      fold min (filter (\<lambda>n. n \<noteq> 0) (drop i ns)) m)"
proof (induction "exclusive_sum ns" "length ns" i "(c, m)" arbitrary: c m rule: is_needed_loop.induct)
  case (1 i c m)
  show ?case
  proof (cases "i < length ns")
    case True
    then have d: "drop i ns = ns ! i # drop (Suc i) ns"
      by (simp add: Cons_nth_drop_Suc)
    from True have diff: "exclusive_sum ns ! (i + 1) - exclusive_sum ns ! i = ns ! i"
      by (rule exclusive_sum_diff)
    show ?thesis
    proof (cases "ns ! i = 0")
      case z: True
      have "is_needed_loop (exclusive_sum ns) (length ns) i (c, m) =
            is_needed_loop (exclusive_sum ns) (length ns) (i + 1) (c, m)"
        using True diff z by (subst is_needed_loop.simps) (simp add: Let_def)
      also have "\<dots> = (c + int (length (filter (\<lambda>n. n \<noteq> 0) (drop (i+1) ns))),
            fold min (filter (\<lambda>n. n \<noteq> 0) (drop (i+1) ns)) m)"
        using "1.hyps"(2) True diff z by simp
      finally show ?thesis using d z by simp
    next
      case nz: False
      have "is_needed_loop (exclusive_sum ns) (length ns) i (c, m) =
            is_needed_loop (exclusive_sum ns) (length ns) (i + 1) (c + 1, min m (ns ! i))"
        using True diff nz by (subst is_needed_loop.simps) (simp add: Let_def)
      also have "\<dots> = (c + 1 + int (length (filter (\<lambda>n. n \<noteq> 0) (drop (i+1) ns))),
            fold min (filter (\<lambda>n. n \<noteq> 0) (drop (i+1) ns)) (min m (ns ! i)))"
        using "1.hyps"(1) True diff nz by simp
      finally show ?thesis using d nz by (simp add: min.commute[of m])
    qed
  next
    case False
    with 1 show ?thesis by (subst is_needed_loop.simps) simp
  qed
qed

lemma fold_min_Min:
  "fold min xs (m::int) = Min (insert m (set xs))"
proof (induction xs arbitrary: m)
  case Nil then show ?case by simp
next
  case (Cons x xs)
  have "insert (min x m) (set xs) \<noteq> {}" by simp
  have "Min (insert (min x m) (set xs)) = Min (insert m (insert x (set xs)))"
    by (cases "set xs = {}") (auto simp: min.commute min.left_commute)
  then show ?case using Cons by (simp add: insert_commute)
qed

lemma is_needed_eq:
  "is_needed prm ns =
     (enable prm \<and> 1 < length (filter (\<lambda>n. n \<noteq> 0) ns) \<and>
      Min (insert PTRDIFF_MAX (set (filter (\<lambda>n. n \<noteq> 0) ns))) \<le> min_per_proc prm)"
  using is_needed_loop_eq[of 0 ns 0 PTRDIFF_MAX]
  by (simp add: is_needed_def Let_def fold_min_Min)

text \<open>
  Claim C9. Provided every local row count is a non-negative \<open>ptrdiff_t\<close>,
  \<open>is_needed\<close> answers true exactly when repartitioning is enabled, more than one rank
  owns at least one row, and the smallest nonzero local row count is at most
  \<open>min_per_proc\<close>; so it is true only if the last two hold. With a single rank it is
  false whatever \<open>min_per_proc\<close> is.
\<close>

theorem is_needed_only_if:
  assumes "\<forall>n\<in>set loc_rows. 0 \<le> n \<and> n \<le> PTRDIFF_MAX"
  shows "(is_needed prm loc_rows \<longleftrightarrow>
            enable prm \<and>
            1 < card {r. r < length loc_rows \<and> 0 < loc_rows ! r} \<and>
            Min {n \<in> set loc_rows. 0 < n} \<le> min_per_proc prm) \<and>
         (length loc_rows = 1 \<longrightarrow> \<not> is_needed prm loc_rows)"
proof -
  let ?nz = "filter (\<lambda>n. n \<noteq> 0) loc_rows"
  have f: "?nz = filter (\<lambda>n. 0 < n) loc_rows"
    using assms by (intro filter_cong) auto
  have c: "length ?nz = card {r. r < length loc_rows \<and> 0 < loc_rows ! r}"
    unfolding f by (rule length_filter_conv_card)
  have s: "set ?nz = {n \<in> set loc_rows. 0 < n}"
    unfolding f by auto
  have m: "Min (insert PTRDIFF_MAX (set ?nz)) = Min (set ?nz)" if "1 < length ?nz"
  proof -
    from that have ne: "set ?nz \<noteq> {}" by (cases ?nz) auto
    have "Min (set ?nz) \<le> PTRDIFF_MAX"
    proof -
      from ne obtain x where x: "x \<in> set ?nz" by (meson equals0I)
      then have "Min (set ?nz) \<le> x" by (intro Min_le) auto
      moreover have "x \<le> PTRDIFF_MAX" using x assms by auto
      ultimately show ?thesis by linarith
    qed
    then show ?thesis using ne by (simp add: min_absorb2)
  qed
  have one: "\<not> is_needed prm loc_rows" if "length loc_rows = 1"
  proof -
    have "length ?nz \<le> length loc_rows" by (rule length_filter_le)
    with that show ?thesis by (simp add: is_needed_eq)
  qed
  show ?thesis
    using m one unfolding is_needed_eq c[symmetric] s[symmetric] by auto
qed

theorem is_needed_only_if_witness:
  "list_all (\<lambda>n. 0 \<le> n \<and> n \<le> PTRDIFF_MAX) [5, 0, 7] \<and>
   is_needed \<lparr>enable = True, min_per_proc = 10, shrink_ratio = 8\<rparr> [5, 0, 7] \<and>
   1 < card {r. r < length [5, 0, 7 :: int] \<and> 0 < [5, 0, 7 :: int] ! r} \<and>
   Min {n \<in> set [5, 0, 7 :: int]. 0 < n}
     \<le> min_per_proc \<lparr>enable = True, min_per_proc = 10, shrink_ratio = 8\<rparr>"
proof -
  let ?prm = "\<lparr>enable = True, min_per_proc = 10, shrink_ratio = 8\<rparr>"
  have h: "\<forall>n\<in>set [5, 0, 7 :: int]. 0 \<le> n \<and> n \<le> PTRDIFF_MAX"
    by (simp add: PTRDIFF_MAX_def)
  have run: "is_needed ?prm [5, 0, 7]"
    by (simp add: is_needed_def exclusive_sum_def is_needed_loop.simps PTRDIFF_MAX_def Let_def)
  from is_needed_only_if [OF h, of ?prm] run
  have "1 < card {r. r < length [5, 0, 7 :: int] \<and> 0 < [5, 0, 7 :: int] ! r} \<and>
        Min {n \<in> set [5, 0, 7 :: int]. 0 < n} \<le> min_per_proc ?prm"
    by blast
  with h run show ?thesis by (simp add: list_all_iff)
qed

end
